theory Spec2Isabelle
  imports Main "HOL-Library.AList"
begin

section \<open>JavaScript values shared by all components\<close>

text \<open>
  A JavaScript string is a sequence of UTF-16 code units; each code unit is a natural
  number here.  \<open>js\<close> turns an ASCII literal into such a sequence.  Thrown values are
  \<open>Error\<close> objects, identified by their message.
\<close>

type_synonym jsstring = "nat list"

definition js :: "string \<Rightarrow> jsstring" where
  "js s = map of_char s"

datatype js_error = JsError jsstring

text \<open>
  The \<open>args\<close> of a request are opaque (\<open>unknown\<close>).  The only thing the code does with
  them is \<open>typeof args === "string" ? args : JSON.stringify(args, null, 2)\<close>, so a value is
  either a string, a value with its JSON rendering, or a value for which
  \<open>JSON.stringify\<close> gives no string.
\<close>

datatype js_args = ArgString jsstring | ArgJson jsstring | ArgNoJson

section \<open>The pending-request store (src/state/pending.ts)\<close>

text \<open>
  A promise is a cell that is settled at most once: calling its \<open>resolve\<close> or \<open>reject\<close>
  function after it has been settled does nothing.  The promises created so far are kept
  in a list; a promise is named by its index.
\<close>

datatype settlement = Unsettled | Fulfilled jsstring | Rejected js_error

definition settle :: "nat \<Rightarrow> settlement \<Rightarrow> settlement list \<Rightarrow> settlement list" where
  "settle p v ps = (if p < length ps \<and> ps ! p = Unsettled then ps[p := v] else ps)"

text \<open>\<open>Omit<PendingRequest, "resolver" | "rejecter">\<close>, the argument of \<open>add\<close>.\<close>

record request_fields =
  rq_id :: jsstring
  rq_sessionId :: jsstring
  rq_messageId :: jsstring
  rq_tool :: jsstring
  rq_args :: js_args
  rq_timestamp :: int

text \<open>
  \<open>PendingRequest\<close>: the request's fields, and the \<open>resolve\<close> and \<open>reject\<close> functions of a
  promise, each given by the promise it settles.
\<close>

record pending_request =
  pr_request :: request_fields
  resolver :: nat
  rejecter :: nat

text \<open>
  The store's two fields, together with the part of the JavaScript runtime its closures
  live in: the promises handed out by \<open>add\<close>, and the timers started by \<open>setTimeout\<close>
  that have not fired yet.  A timer holds its delay and the two values its callback
  captured: \<open>request.id\<close> and the \<open>reject\<close> function of the promise.
  \<open>requests\<close> is a JavaScript \<open>Map\<close>: an association list in insertion order, where
  \<open>set\<close> replaces the value of a key in place or appends a new key.
\<close>

record pending_state =
  requests :: "(jsstring \<times> pending_request) list"
  timeoutMs :: int
  promises :: "settlement list"
  timers :: "(int \<times> jsstring \<times> nat) list"

definition PendingRequestsStore :: "int \<Rightarrow> pending_state" where
  "PendingRequestsStore ms = \<lparr>requests = [], timeoutMs = ms, promises = [], timers = []\<rparr>"

definition has :: "pending_state \<Rightarrow> jsstring \<Rightarrow> bool" where
  "has st rid = (map_of (requests st) rid \<noteq> None)"

definition get :: "pending_state \<Rightarrow> jsstring \<Rightarrow> pending_request option" where
  "get st rid = map_of (requests st) rid"

definition getAll :: "pending_state \<Rightarrow> pending_request list" where
  "getAll st = map snd (requests st)"

text \<open>\<open>add\<close> returns the new promise and the state after the call.\<close>

definition add :: "pending_state \<Rightarrow> request_fields \<Rightarrow> nat \<times> pending_state" where
  "add st request =
     (let p = length (promises st);
          pending = \<lparr>pr_request = request, resolver = p, rejecter = p\<rparr>
      in (p, st\<lparr>promises := promises st @ [Unsettled],
                requests := AList.update (rq_id request) pending (requests st),
                timers := timers st @ [(timeoutMs st, rq_id request, p)]\<rparr>))"

definition timeout_error :: "jsstring \<Rightarrow> js_error" where
  "timeout_error rid = JsError (js ''Permission request timeout: '' @ rid)"

text \<open>The callback given to \<open>setTimeout\<close> in \<open>add\<close>, with its captured id and promise.\<close>

definition timeout_callback :: "jsstring \<Rightarrow> nat \<Rightarrow> pending_state \<Rightarrow> pending_state" where
  "timeout_callback rid p st =
     (if has st rid
      then st\<lparr>requests := AList.delete rid (requests st),
              promises := settle p (Rejected (timeout_error rid)) (promises st)\<rparr>
      else st)"

definition resolve :: "pending_state \<Rightarrow> jsstring \<Rightarrow> jsstring \<Rightarrow> bool \<times> pending_state" where
  "resolve st rid response =
     (case map_of (requests st) rid of
        None \<Rightarrow> (False, st)
      | Some request \<Rightarrow>
          (True, st\<lparr>requests := AList.delete rid (requests st),
                    promises := settle (resolver request) (Fulfilled response) (promises st)\<rparr>))"

definition reject :: "pending_state \<Rightarrow> jsstring \<Rightarrow> js_error \<Rightarrow> bool \<times> pending_state" where
  "reject st rid err =
     (case map_of (requests st) rid of
        None \<Rightarrow> (False, st)
      | Some request \<Rightarrow>
          (True, st\<lparr>requests := AList.delete rid (requests st),
                    promises := settle (rejecter request) (Rejected err) (promises st)\<rparr>))"

definition store_cleared :: js_error where
  "store_cleared = JsError (js ''Store cleared'')"

definition clear :: "pending_state \<Rightarrow> pending_state" where
  "clear st =
     st\<lparr>promises := fold (\<lambda>request. settle (rejecter request) (Rejected store_cleared))
                       (map snd (requests st)) (promises st),
        requests := []\<rparr>"

definition setTimeoutMs :: "pending_state \<Rightarrow> int \<Rightarrow> pending_state" where
  "setTimeoutMs st ms = st\<lparr>timeoutMs := ms\<rparr>"

subsection \<open>Runs of the store\<close>

text \<open>
  The event loop runs one callback at a time.  A run of the store is a list of events:
  a call of one of its methods, or the firing of the \<open>n\<close>-th timer that is still waiting
  (a timer fires once and is gone).
\<close>

datatype store_event =
    Add request_fields
  | Resolve jsstring jsstring
  | Reject jsstring js_error
  | TimerFires nat
  | Clear
  | SetTimeoutMs int

definition fire_timer :: "nat \<Rightarrow> pending_state \<Rightarrow> pending_state" where
  "fire_timer n st =
     (if n < length (timers st)
      then (case timers st ! n of
              (d, rid, p) \<Rightarrow>
                timeout_callback rid p (st\<lparr>timers := take n (timers st) @ drop (Suc n) (timers st)\<rparr>))
      else st)"

fun exec :: "store_event \<Rightarrow> pending_state \<Rightarrow> pending_state" where
  "exec (Add request) st = snd (add st request)"
| "exec (Resolve rid response) st = snd (resolve st rid response)"
| "exec (Reject rid err) st = snd (reject st rid err)"
| "exec (TimerFires n) st = fire_timer n st"
| "exec Clear st = clear st"
| "exec (SetTimeoutMs ms) st = setTimeoutMs st ms"

definition run :: "store_event list \<Rightarrow> pending_state \<Rightarrow> pending_state" where
  "run evs st = fold exec evs st"

fun registers :: "jsstring \<Rightarrow> store_event \<Rightarrow> bool" where
  "registers rid (Add request) = (rq_id request = rid)"
| "registers rid _ = False"

text \<open>
  The three ways a registered request can be completed: a \<open>resolve\<close> call, a \<open>reject\<close>
  call, and the timer callback (with the promise it captured).  \<open>attempt\<close> gives whether
  the attempt completed the request, and the state after it.
\<close>

datatype completion = ByResolve jsstring | ByReject js_error | ByTimeout nat

fun attempt :: "completion \<Rightarrow> pending_state \<Rightarrow> jsstring \<Rightarrow> bool \<times> pending_state" where
  "attempt (ByResolve response) st rid = resolve st rid response"
| "attempt (ByReject err) st rid = reject st rid err"
| "attempt (ByTimeout p) st rid = (has st rid, timeout_callback rid p st)"

text \<open>What the awaitable of request \<open>rid\<close> holds once the attempt has completed it.\<close>

fun outcome :: "completion \<Rightarrow> jsstring \<Rightarrow> settlement" where
  "outcome (ByResolve response) rid = Fulfilled response"
| "outcome (ByReject err) rid = Rejected err"
| "outcome (ByTimeout p) rid = Rejected (timeout_error rid)"

text \<open>
  The timer that \<open>add\<close> started for a record captured the \<open>reject\<close> function of the
  record's own promise.
\<close>

fun own_timer :: "completion \<Rightarrow> pending_request \<Rightarrow> bool" where
  "own_timer (ByTimeout p) request = (p = rejecter request)"
| "own_timer _ request = True"

text \<open>
  The invariant of every state a run reaches: keys are distinct and are the ids of their
  records, no two records share a promise, both functions of a record belong to one
  promise, that promise exists and is not settled, and a waiting timer's promise can
  only be the promise of the record stored under the timer's id.
\<close>

definition wf_store :: "pending_state \<Rightarrow> bool" where
  "wf_store st \<longleftrightarrow>
     distinct (map fst (requests st)) \<and>
     distinct (map (\<lambda>kr. resolver (snd kr)) (requests st)) \<and>
     (\<forall>(k, r) \<in> set (requests st).
        rq_id (pr_request r) = k \<and> rejecter r = resolver r \<and>
        resolver r < length (promises st) \<and> promises st ! resolver r = Unsettled) \<and>
     (\<forall>(d, k, p) \<in> set (timers st).
        p < length (promises st) \<and>
        (\<forall>(k', r) \<in> set (requests st). resolver r = p \<longrightarrow> k' = k))"

section \<open>String operations of the runtime\<close>

text \<open>
  \<open>String.prototype.trim\<close> removes the code units of ECMAScript's \<open>WhiteSpace\<close> and
  \<open>LineTerminator\<close> productions from both ends; the regular expression class \<open>\s\<close>
  matches the same code units.
\<close>

definition is_whitespace :: "nat \<Rightarrow> bool" where
  "is_whitespace c \<longleftrightarrow>
     c = 9 \<or> c = 10 \<or> c = 11 \<or> c = 12 \<or> c = 13 \<or> c = 32 \<or> c = 160 \<or> c = 5760 \<or>
     (8192 \<le> c \<and> c \<le> 8202) \<or> c = 8232 \<or> c = 8233 \<or> c = 8239 \<or> c = 8287 \<or>
     c = 12288 \<or> c = 65279"

definition trim :: "jsstring \<Rightarrow> jsstring" where
  "trim s = rev (dropWhile is_whitespace (rev (dropWhile is_whitespace s)))"

definition startsWith :: "jsstring \<Rightarrow> jsstring \<Rightarrow> bool" where
  "startsWith s p \<longleftrightarrow> take (length p) s = p"

text \<open>
  \<open>s.split(/\s+/)\<close>: the pieces between maximal runs of whitespace.  A run at the start
  or at the end gives an empty piece there, and the empty string gives one empty piece.
\<close>

function split_ws :: "jsstring \<Rightarrow> jsstring \<Rightarrow> jsstring list" where
  "split_ws piece [] = [piece]"
| "split_ws piece (c # cs) =
     (if is_whitespace c then piece # split_ws [] (dropWhile is_whitespace cs)
      else split_ws (piece @ [c]) cs)"
  by pat_completeness auto
termination
  by (relation "measure (\<lambda>(piece, s). length s)") (auto simp: length_dropWhile_le less_Suc_eq_le)

definition split_whitespace :: "jsstring \<Rightarrow> jsstring list" where
  "split_whitespace s = split_ws [] s"

definition join_lines :: "jsstring list \<Rightarrow> jsstring" where
  "join_lines ls = (case ls of [] \<Rightarrow> [] | l # rest \<Rightarrow> l @ concat (map (\<lambda>x. 10 # x) rest))"

text \<open>
  \<open>Number.prototype.toString\<close> on an integer: its decimal digits, with a minus sign
  for a negative number.  This is what the runtime prints for integers of magnitude
  below \<open>10\<^sup>2\<^sup>1\<close>, from where it switches to exponent form; message ids are
  integers far below that.
\<close>

function digits :: "nat \<Rightarrow> jsstring" where
  "digits n = (if n < 10 then [48 + n] else digits (n div 10) @ [48 + n mod 10])"
  by pat_completeness auto
termination
  by (relation "measure (\<lambda>n. n)") auto

declare digits.simps [simp del]

definition toString :: "int \<Rightarrow> jsstring" where
  "toString i = (if i < 0 then 45 # digits (nat (- i)) else digits (nat i))"

text \<open>A string or \<open>undefined\<close> used as a condition: \<open>undefined\<close> and \<open>""\<close> are falsy.\<close>

definition truthy :: "jsstring option \<Rightarrow> bool" where
  "truthy s \<longleftrightarrow> (case s of None \<Rightarrow> False | Some t \<Rightarrow> t \<noteq> [])"

text \<open>
  \<open>String(error)\<close> for a plain \<open>Error\<close> object, whose name is \<open>Error\<close>: the name alone
  when the message is empty, otherwise the name, a colon and the message.
\<close>

fun error_string :: "js_error \<Rightarrow> jsstring" where
  "error_string (JsError m) = (if m = [] then js ''Error'' else js ''Error: '' @ m)"

section \<open>The channel (src/channels/base.ts, src/channels/telegram.ts)\<close>

datatype parse_mode = Markdown | HTML

record telegram_config =
  botToken :: jsstring
  chatId :: jsstring
  parseMode :: parse_mode

text \<open>\<open>PermissionRequest\<close> of src/types.ts.\<close>

record permission_request =
  req_id :: jsstring
  req_sessionId :: jsstring
  req_tool :: jsstring
  req_args :: js_args
  req_description :: "jsstring option"
  req_timestamp :: int

text \<open>
  \<open>TelegramUpdate\<close>.  Of a message's \<open>chat\<close> and \<open>reply_to_message\<close> objects only the
  ids exist; an optional field is an \<open>option\<close>.
\<close>

record telegram_message =
  msg_message_id :: int
  msg_chat_id :: int
  msg_text :: "jsstring option"
  msg_reply_to_message :: "int option"

record telegram_callback_query =
  cq_id :: jsstring
  cq_message :: "(int \<times> int) option"
  cq_data :: "jsstring option"

record telegram_update =
  update_id :: int
  upd_message :: "telegram_message option"
  upd_callback_query :: "telegram_callback_query option"

text \<open>\<open>TelegramResponse<T>\<close>, and what \<open>fetch\<close> followed by \<open>response.json()\<close> gives.\<close>

record 'a telegram_response =
  tr_ok :: bool
  tr_result :: "'a option"
  tr_description :: "jsstring option"

datatype 'a fetched = Thrown js_error | Json "'a telegram_response"

text \<open>
  What a \<open>fetch\<close> whose response is not read gives: it resolves (whether or not the
  service accepted the call), or it throws.
\<close>

datatype fetch_outcome = Responded bool | Threw js_error

text \<open>
  The fields of \<open>TelegramChannel\<close> that its methods read or write, apart from the abort
  controller of the poll loop.  \<open>pendingMessageIds\<close>, the correlation table, is a
  \<open>Map\<close> from request id to native message id, in insertion order.  The callbacks
  registered with \<open>onResponse\<close> are named by numbers.  The poll loop that feeds
  \<open>handleUpdate\<close>, and \<open>start\<close>, \<open>stop\<close> and \<open>send\<close>, are outside this development.
\<close>

record telegram_channel =
  config :: telegram_config
  lastUpdateId :: int
  pollingActive :: bool
  pendingMessageIds :: "(jsstring \<times> int) list"
  responseCallbacks :: "nat list"

text \<open>
  What a method of the channel does to the outside: it calls a registered callback, or
  posts to one of the service's endpoints.
\<close>

datatype channel_effect =
    CallbackCalled nat jsstring jsstring
  | PostSendMessage jsstring jsstring parse_mode "(jsstring \<times> jsstring) list"
  | PostEditMessageText jsstring int jsstring parse_mode
  | PostAnswerCallbackQuery jsstring jsstring

definition TelegramChannel :: "telegram_config \<Rightarrow> telegram_channel" where
  "TelegramChannel cfg =
     \<lparr>config = cfg, lastUpdateId = 0, pollingActive = False, pendingMessageIds = [],
      responseCallbacks = []\<rparr>"

definition onResponse :: "telegram_channel \<Rightarrow> nat \<Rightarrow> telegram_channel" where
  "onResponse ch callback = ch\<lparr>responseCallbacks := responseCallbacks ch @ [callback]\<rparr>"

definition notifyResponse :: "telegram_channel \<Rightarrow> jsstring \<Rightarrow> jsstring \<Rightarrow> channel_effect list" where
  "notifyResponse ch messageId response =
     map (\<lambda>callback. CallbackCalled callback messageId response) (responseCallbacks ch)"

definition type_error :: js_error where
  "type_error = JsError (js ''TypeError'')"

text \<open>
  \<open>formatPermissionMessage\<close>.  When \<open>JSON.stringify\<close> gives no string, reading
  \<open>argsStr.length\<close> throws a \<open>TypeError\<close>.  Its message is worded by the runtime;
  \<open>type_error\<close> stands for that error and records only its kind.
\<close>

definition formatPermissionMessage :: "permission_request \<Rightarrow> js_error + jsstring" where
  "formatPermissionMessage request =
     (case (case req_args request of
              ArgString s \<Rightarrow> Some s
            | ArgJson s \<Rightarrow> Some s
            | ArgNoJson \<Rightarrow> None) of
        None \<Rightarrow> Inl type_error
      | Some argsStr \<Rightarrow>
          (let truncatedArgs =
                 (if length argsStr > 500 then take 500 argsStr @ js ''...'' else argsStr)
           in Inr (join_lines
                [[55357, 56596] @ js '' *Permission Required*'',
                 [],
                 js ''*Tool:* '' @ [96] @ req_tool request @ [96],
                 [],
                 [96, 96, 96],
                 truncatedArgs,
                 [96, 96, 96],
                 [],
                 js ''_Reply: '' @ [9989] @ js '' allow | '' @ [10060] @ js '' deny | custom text_''])))"

text \<open>
  \<open>parseResponse\<close>.  \<open>String.prototype.toLowerCase\<close> follows the Unicode case tables of
  the runtime; it is the first argument here.  The two glyphs are the code units 9989
  (white heavy check mark) and 10060 (cross mark).
\<close>

definition parseResponse :: "(jsstring \<Rightarrow> jsstring) \<Rightarrow> jsstring \<Rightarrow> jsstring" where
  "parseResponse toLowerCase text' =
     (let normalized = trim (toLowerCase text') in
      if normalized = js ''allow'' \<or> normalized = js ''yes'' \<or> normalized = js ''y'' \<or>
         normalized = [9989]
      then js ''allow''
      else if normalized = js ''deny'' \<or> normalized = js ''no'' \<or> normalized = js ''n'' \<or>
         normalized = [10060]
      then js ''deny''
      else trim text')"

definition findRequestIdByMessageId :: "telegram_channel \<Rightarrow> jsstring \<Rightarrow> jsstring option" where
  "findRequestIdByMessageId ch messageId =
     (case find (\<lambda>(reqId, msgId). toString msgId = messageId) (pendingMessageIds ch) of
        None \<Rightarrow> None
      | Some (reqId, msgId) \<Rightarrow> Some reqId)"

text \<open>
  \<open>answerCallbackQuery\<close> catches whatever its \<open>fetch\<close> throws, so the post is all it does.
\<close>

definition answerCallbackQuery :: "jsstring \<Rightarrow> jsstring \<Rightarrow> channel_effect list" where
  "answerCallbackQuery queryId text' = [PostAnswerCallbackQuery queryId text']"

definition handleCallbackQuery ::
  "(jsstring \<Rightarrow> jsstring) \<Rightarrow> telegram_channel \<Rightarrow> telegram_callback_query \<Rightarrow> channel_effect list" where
  "handleCallbackQuery toLowerCase ch query =
     (case cq_message query of
        None \<Rightarrow> []
      | Some (message_id, chat) \<Rightarrow>
          if \<not> truthy (cq_data query) then []
          else let messageId = toString message_id;
                   requestId = findRequestIdByMessageId ch messageId
               in if truthy requestId
                  then let response = parseResponse toLowerCase (the (cq_data query))
                       in notifyResponse ch (the requestId) response @
                          answerCallbackQuery (cq_id query) (js ''Response: '' @ response)
                  else [])"

definition handleUpdate ::
  "(jsstring \<Rightarrow> jsstring) \<Rightarrow> telegram_channel \<Rightarrow> telegram_update \<Rightarrow> channel_effect list" where
  "handleUpdate toLowerCase ch update =
     (case upd_callback_query update of
        Some query \<Rightarrow> handleCallbackQuery toLowerCase ch query
      | None \<Rightarrow>
          (case upd_message update of
             None \<Rightarrow> []
           | Some message \<Rightarrow>
               if truthy (msg_text message) \<and> msg_reply_to_message message \<noteq> None
               then let replyToId = toString (the (msg_reply_to_message message));
                        requestId = findRequestIdByMessageId ch replyToId
                    in if truthy requestId
                       then let response = parseResponse toLowerCase (the (msg_text message))
                            in notifyResponse ch (the requestId) response
                       else []
               else []))"

definition permission_buttons :: "(jsstring \<times> jsstring) list" where
  "permission_buttons =
     [([9989] @ js '' Allow'', js ''allow''), ([10060] @ js '' Deny'', js ''deny'')]"

text \<open>
  \<open>sendPermissionRequest\<close>: the value returned or the error thrown, the channel
  afterwards, and the posts made.  \<open>data.description || "..."\<close> takes the default for a
  missing or empty description.
\<close>

definition sendPermissionRequest ::
  "telegram_channel \<Rightarrow> permission_request \<Rightarrow> int fetched \<Rightarrow>
     (js_error + jsstring) \<times> telegram_channel \<times> channel_effect list" where
  "sendPermissionRequest ch request fetched =
     (case formatPermissionMessage request of
        Inl e \<Rightarrow> (Inl e, ch, [])
      | Inr text' \<Rightarrow>
          (let post = PostSendMessage (chatId (config ch)) text' (parseMode (config ch))
                        permission_buttons
           in case fetched of
                Thrown e \<Rightarrow> (Inl e, ch, [post])
              | Json data \<Rightarrow>
                  if \<not> tr_ok data \<or> tr_result data = None
                  then (Inl (JsError (if truthy (tr_description data) then the (tr_description data)
                                      else js ''Failed to send permission request'')),
                        ch, [post])
                  else let messageId = the (tr_result data)
                       in (Inr (req_id request),
                           ch\<lparr>pendingMessageIds :=
                                AList.update (req_id request) messageId (pendingMessageIds ch)\<rparr>,
                           [post])))"

text \<open>
  \<open>updateMessage\<close>.  \<open>!telegramMsgId\<close> holds for a missing entry and for the number 0.
  The \<open>try\<close> block is the \<open>fetch\<close>; the \<open>catch\<close> block is empty, so every outcome of the
  \<open>fetch\<close> goes on to the \<open>delete\<close>.
\<close>

definition updateMessage ::
  "telegram_channel \<Rightarrow> jsstring \<Rightarrow> jsstring \<Rightarrow> fetch_outcome \<Rightarrow>
     (js_error + unit) \<times> telegram_channel \<times> channel_effect list" where
  "updateMessage ch messageId content outcome' =
     (case map_of (pendingMessageIds ch) messageId of
        None \<Rightarrow> (Inr (), ch, [])
      | Some telegramMsgId \<Rightarrow>
          if telegramMsgId = 0 then (Inr (), ch, [])
          else let post = PostEditMessageText (chatId (config ch)) telegramMsgId content
                            (parseMode (config ch));
                   deleted = ch\<lparr>pendingMessageIds := AList.delete messageId (pendingMessageIds ch)\<rparr>
               in case outcome' of
                    Responded accepted \<Rightarrow> (Inr (), deleted, [post])
                  | Threw e \<Rightarrow> (Inr (), deleted, [post]))"


subsection \<open>Vocabulary for the statements about the channel\<close>

text \<open>
  The message id an update is matched by: the message a callback query came from, or,
  for an update without a callback query, the message replied to.
\<close>

definition correlation_target :: "telegram_update \<Rightarrow> int option" where
  "correlation_target update =
     (case upd_callback_query update of
        Some query \<Rightarrow> map_option fst (cq_message query)
      | None \<Rightarrow>
          (case upd_message update of
             None \<Rightarrow> None
           | Some message \<Rightarrow> msg_reply_to_message message))"

text \<open>
  On strings of ASCII characters and the two glyphs, the runtime's \<open>toLowerCase\<close>
  turns \<open>A\<close> to \<open>Z\<close> into \<open>a\<close> to \<open>z\<close> and changes nothing else.
\<close>

definition ascii_toLowerCase :: "jsstring \<Rightarrow> jsstring" where
  "ascii_toLowerCase s = map (\<lambda>c. if 65 \<le> c \<and> c \<le> 90 then c + 32 else c) s"

definition lowers_ascii :: "(jsstring \<Rightarrow> jsstring) \<Rightarrow> bool" where
  "lowers_ascii toLowerCase \<longleftrightarrow>
     (\<forall>s. (\<forall>c \<in> set s. c < 128 \<or> c = 9989 \<or> c = 10060) \<longrightarrow> toLowerCase s = ascii_toLowerCase s)"

section \<open>The permission handler (src/handlers/permission.ts)\<close>

text \<open>
  \<open>generateId\<close>: the clock and the random digits come from the runtime.
\<close>

definition generateId :: "int \<Rightarrow> jsstring \<Rightarrow> jsstring" where
  "generateId now random = js ''perm_'' @ toString now @ js ''_'' @ random"

text \<open>
  The callback that the constructor registers with \<open>onResponse\<close> is \<open>handleResponse\<close>.
\<close>

definition handleResponse :: "pending_state \<Rightarrow> jsstring \<Rightarrow> jsstring \<Rightarrow> pending_state" where
  "handleResponse st requestId response = snd (resolve st requestId response)"

text \<open>The two texts that \<open>handlePermissionRequest\<close> edits into the message.\<close>

definition response_notice :: "jsstring \<Rightarrow> jsstring \<Rightarrow> jsstring" where
  "response_notice tool response =
     [9989] @ js '' *Permission '' @
     (if response = js ''allow'' then js ''Granted''
      else if response = js ''deny'' then js ''Denied''
      else js ''Responded'') @
     js ''*'' @ [10, 10] @ js ''Tool: '' @ [96] @ tool @ [96] @ [10] @ js ''Response: '' @ response"

definition timeout_notice :: "jsstring \<Rightarrow> jsstring" where
  "timeout_notice tool =
     [9201, 65039] @ js '' *Permission Timeout*'' @ [10, 10] @ js ''Tool: '' @ [96] @ tool @ [96] @
     [10] @ js ''No response received.''"

text \<open>
  \<open>handlePermissionRequest\<close> up to the point where it waits for the promise of the
  store: it builds the request, sends it and registers it.  A failed send is thrown on,
  before anything is registered.  The result is the request and its promise.
\<close>

definition handlePermissionRequest_send ::
  "telegram_channel \<Rightarrow> pending_state \<Rightarrow> jsstring \<Rightarrow> js_args \<Rightarrow> jsstring \<Rightarrow>
   int \<Rightarrow> jsstring \<Rightarrow> int \<Rightarrow> int fetched \<Rightarrow>
     (js_error + permission_request \<times> nat) \<times> telegram_channel \<times> pending_state \<times> channel_effect list" where
  "handlePermissionRequest_send ch st tool args sessionId now_id random now fetched =
     (let request = \<lparr>req_id = generateId now_id random, req_sessionId = sessionId, req_tool = tool,
                      req_args = args, req_description = None, req_timestamp = now\<rparr>
      in case sendPermissionRequest ch request fetched of
           (Inl e, ch', posts) \<Rightarrow> (Inl e, ch', st, posts)
         | (Inr messageId, ch', posts) \<Rightarrow>
             (case add st \<lparr>rq_id = req_id request, rq_sessionId = sessionId,
                           rq_messageId = messageId, rq_tool = tool, rq_args = args,
                           rq_timestamp = req_timestamp request\<rparr> of
                (responsePromise, st') \<Rightarrow> (Inr (request, responsePromise), ch', st', posts)))"

text \<open>
  What the handler gives back: the decision returned or the error thrown, the channel
  afterwards, the \<open>updateMessage\<close> calls it made (id and content), and the posts these
  calls made.
\<close>

record handler_result =
  hr_result :: "js_error + jsstring"
  hr_channel :: telegram_channel
  hr_calls :: "(jsstring \<times> jsstring) list"
  hr_posts :: "channel_effect list"

text \<open>The \<open>catch\<close> block: edit the message, then throw the error caught.\<close>

definition catch_block ::
  "telegram_channel \<Rightarrow> permission_request \<Rightarrow> js_error \<Rightarrow> fetch_outcome \<Rightarrow>
   (jsstring \<times> jsstring) list \<Rightarrow> channel_effect list \<Rightarrow> handler_result" where
  "catch_block ch request error outcome' calls posts =
     (case updateMessage ch (req_id request) (timeout_notice (req_tool request)) outcome' of
        (Inl thrown, ch', posts') \<Rightarrow>
          \<lparr>hr_result = Inl thrown, hr_channel = ch',
           hr_calls = calls @ [(req_id request, timeout_notice (req_tool request))],
           hr_posts = posts @ posts'\<rparr>
      | (Inr u, ch', posts') \<Rightarrow>
          \<lparr>hr_result = Inl error, hr_channel = ch',
           hr_calls = calls @ [(req_id request, timeout_notice (req_tool request))],
           hr_posts = posts @ posts'\<rparr>)"

text \<open>
  The rest of \<open>handlePermissionRequest\<close>, from the \<open>await\<close> of the promise on.  While the
  promise is not settled the handler stays suspended (\<open>None\<close>).  The \<open>try\<close> block covers
  the \<open>await\<close> and the first \<open>updateMessage\<close>; the two outcomes are those of the
  \<open>fetch\<close> of the first and of the second \<open>updateMessage\<close> call.
\<close>

definition handlePermissionRequest_resume ::
  "telegram_channel \<Rightarrow> permission_request \<Rightarrow> settlement \<Rightarrow> fetch_outcome \<Rightarrow> fetch_outcome \<Rightarrow>
     handler_result option" where
  "handlePermissionRequest_resume ch request settled first second =
     (case settled of
        Unsettled \<Rightarrow> None
      | Fulfilled response \<Rightarrow>
          (case updateMessage ch (req_id request) (response_notice (req_tool request) response) first of
             (Inr u, ch', posts) \<Rightarrow>
               Some \<lparr>hr_result = Inr response, hr_channel = ch',
                     hr_calls = [(req_id request, response_notice (req_tool request) response)],
                     hr_posts = posts\<rparr>
           | (Inl thrown, ch', posts) \<Rightarrow>
               Some (catch_block ch' request thrown second
                      [(req_id request, response_notice (req_tool request) response)] posts))
      | Rejected error \<Rightarrow> Some (catch_block ch request error first [] []))"

section \<open>The persisted state (src/state/state.ts)\<close>

text \<open>
  \<open>ChannelsState\<close> with its optional fields, and the store that keeps it in memory and
  writes it to its file in \<open>save\<close>.  \<open>ss_file\<close> is what the file holds once the store has
  written it.  Writing the file is taken to succeed.
\<close>

record channels_state =
  cs_enabled :: "bool option"
  cs_activeSessionId :: "jsstring option"
  cs_lastUpdateId :: "int option"

record state_store =
  ss_state :: channels_state
  ss_file :: "channels_state option"

definition save :: "state_store \<Rightarrow> state_store" where
  "save s = s\<lparr>ss_file := Some (ss_state s)\<rparr>"

definition store_setEnabled :: "state_store \<Rightarrow> bool \<Rightarrow> state_store" where
  "store_setEnabled s enabled = save (s\<lparr>ss_state := (ss_state s)\<lparr>cs_enabled := Some enabled\<rparr>\<rparr>)"

definition setActiveSessionId :: "state_store \<Rightarrow> jsstring option \<Rightarrow> state_store" where
  "setActiveSessionId s sessionId =
     save (if truthy sessionId
           then s\<lparr>ss_state := (ss_state s)\<lparr>cs_activeSessionId := sessionId\<rparr>\<rparr>
           else s\<lparr>ss_state := (ss_state s)\<lparr>cs_activeSessionId := None\<rparr>\<rparr>)"

definition getActiveSessionId :: "state_store \<Rightarrow> jsstring option" where
  "getActiveSessionId s = cs_activeSessionId (ss_state s)"

section \<open>The remote controller (src/handlers/remote.ts)\<close>

text \<open>A session of the host: its id, its title and \<open>time.updated\<close>.\<close>

record session =
  sess_id :: jsstring
  sess_title :: jsstring
  sess_updated :: int

text \<open>
  Modelled from the spec: the type \<open>ChannelIncomingMessage\<close> is imported from
  src/types.ts, which does not declare it.  An inbound event carries a text, the only
  field \<open>handleIncoming\<close> reads.
\<close>

record channel_incoming_message =
  im_text :: jsstring

record remote_controller =
  rc_stateStore :: state_store
  rc_directory :: jsstring
  rc_enabled :: bool

text \<open>
  The calls the controller makes: \<open>channel.send\<close> with a text and a parse mode,
  \<open>client.session.list\<close> with the directory, and \<open>client.session.prompt\<close> with the
  session id, the directory and the text.
\<close>

datatype remote_call =
    ChannelSend jsstring parse_mode
  | SessionList jsstring
  | SessionPrompt jsstring jsstring jsstring

text \<open>
  What these calls give during one \<open>handleIncoming\<close>: \<open>session.list\<close> throws or gives
  a result whose \<open>data\<close> may be missing, \<open>session.prompt\<close> and \<open>channel.send\<close> throw
  or return.  No path makes any of them twice.
\<close>

record remote_env =
  env_list :: "js_error + session list option"
  env_prompt :: "js_error option"
  env_send :: "js_error option"

text \<open>
  Every method gives the error its promise is rejected with, if any, the controller
  afterwards, and the calls made.
\<close>

type_synonym remote_result = "js_error option \<times> remote_controller \<times> remote_call list"

definition channel_send :: "remote_env \<Rightarrow> remote_controller \<Rightarrow> jsstring \<Rightarrow> remote_result" where
  "channel_send env rc text' = (env_send env, rc, [ChannelSend text' Markdown])"

definition after_call :: "remote_call \<Rightarrow> remote_result \<Rightarrow> remote_result" where
  "after_call c r = (case r of (e, rc, calls) \<Rightarrow> (e, rc, c # calls))"

definition setEnabled :: "remote_controller \<Rightarrow> bool \<Rightarrow> remote_controller" where
  "setEnabled rc enabled =
     rc\<lparr>rc_enabled := enabled, rc_stateStore := store_setEnabled (rc_stateStore rc) enabled\<rparr>"

definition isEnabled :: "remote_controller \<Rightarrow> bool" where
  "isEnabled rc = rc_enabled rc"

definition formatStatus :: "remote_controller \<Rightarrow> jsstring" where
  "formatStatus rc =
     (let sessionId = getActiveSessionId (rc_stateStore rc)
      in join_lines
           [js ''*Channels Status*'',
            [],
            js ''Enabled: '' @ [96] @ (if rc_enabled rc then js ''yes'' else js ''no'') @ [96],
            js ''Active session: '' @ [96] @
              (case sessionId of None \<Rightarrow> js ''none'' | Some s \<Rightarrow> s) @ [96]])"

text \<open>
  \<open>sessions.sort((a, b) => b.time.updated - a.time.updated)\<close> is a stable sort, latest
  update first.
\<close>

definition sendSessionList :: "remote_env \<Rightarrow> remote_controller \<Rightarrow> remote_result" where
  "sendSessionList env rc =
     (case env_list env of
        Inl e \<Rightarrow> (Some e, rc, [SessionList (rc_directory rc)])
      | Inr data \<Rightarrow>
          after_call (SessionList (rc_directory rc))
            (let sessions = (case data of None \<Rightarrow> [] | Some ss \<Rightarrow> ss);
                 sorted = sort_key (\<lambda>s. - sess_updated s) sessions;
                 top = take 5 sorted
             in if length top = 0 then channel_send env rc (js ''No sessions found.'')
                else let active = getActiveSessionId (rc_stateStore rc);
                         lines = [js ''*Recent Sessions*''] @
                           map (\<lambda>session.
                                  [96] @ take 8 (sess_id session) @ [96] @ js '' - '' @
                                  (if sess_title session \<noteq> [] then sess_title session
                                   else js ''Untitled'') @
                                  (if active = Some (sess_id session) then js '' (active)'' else []))
                               top @
                           [[], js ''Use '' @ [96] @ js ''/use <sessionId>'' @ [96] @ js '' to select.'']
                     in channel_send env rc (join_lines lines)))"

definition setActiveSession :: "remote_env \<Rightarrow> remote_controller \<Rightarrow> jsstring \<Rightarrow> remote_result" where
  "setActiveSession env rc sessionIdPrefix =
     (case env_list env of
        Inl e \<Rightarrow> (Some e, rc, [SessionList (rc_directory rc)])
      | Inr data \<Rightarrow>
          after_call (SessionList (rc_directory rc))
            (let sessions = (case data of None \<Rightarrow> [] | Some ss \<Rightarrow> ss);
                 matches = filter (\<lambda>session. startsWith (sess_id session) sessionIdPrefix) sessions
             in if length matches = 0
                then channel_send env rc
                       (js ''Session not found. Use '' @ [96] @ js ''/list'' @ [96] @
                        js '' to see recent sessions.'')
                else if length matches > 1
                then channel_send env rc (js ''Multiple matches. Use a longer session ID prefix.'')
                else let session = matches ! 0;
                         rc' = rc\<lparr>rc_stateStore :=
                                   setActiveSessionId (rc_stateStore rc) (Some (sess_id session))\<rparr>
                     in channel_send env rc'
                          (js ''Active session set to '' @ [96] @ take 8 (sess_id session) @ [96])))"

text \<open>
  \<open>handleCommand\<close>.  The first piece of the split is the command, the other pieces are
  its arguments.
\<close>

definition handleCommand :: "remote_env \<Rightarrow> remote_controller \<Rightarrow> jsstring \<Rightarrow> remote_result" where
  "handleCommand env rc raw =
     (case split_whitespace (trim raw) of
        [] \<Rightarrow> channel_send env rc (js ''Unknown command. Use '' @ [96] @ js ''/help'' @ [96] @ js ''.'')
      | command # args \<Rightarrow>
          if command = js ''help''
          then channel_send env rc
                 (join_lines
                    [js ''*Commands*'',
                     [],
                     [96] @ js ''/list'' @ [96] @ js '' - list recent sessions'',
                     [96] @ js ''/use <sessionId>'' @ [96] @ js '' - set active session'',
                     [96] @ js ''/status'' @ [96] @ js '' - show current status''])
          else if command = js ''status'' then channel_send env rc (formatStatus rc)
          else if command = js ''list'' then sendSessionList env rc
          else if command = js ''use''
          then (if length args = 0
                then channel_send env rc (js ''Usage: '' @ [96] @ js ''/use <sessionId>'' @ [96])
                else setActiveSession env rc (args ! 0))
          else channel_send env rc (js ''Unknown command. Use '' @ [96] @ js ''/help'' @ [96] @ js ''.''))"

definition no_active_session_text :: jsstring where
  "no_active_session_text =
     js ''No active session. Use '' @ [96] @ js ''/list'' @ [96] @ js '' then '' @ [96] @
     js ''/use <sessionId>'' @ [96] @ js ''.''"

definition handleIncoming :: "remote_env \<Rightarrow> remote_controller \<Rightarrow> channel_incoming_message \<Rightarrow> remote_result" where
  "handleIncoming env rc message =
     (let text' = trim (im_text message)
      in if \<not> rc_enabled rc then (None, rc, [])
         else if text' = [] then (None, rc, [])
         else if startsWith text' (js ''/'') then handleCommand env rc (drop 1 text')
         else let sessionId = getActiveSessionId (rc_stateStore rc)
              in if \<not> truthy sessionId then channel_send env rc no_active_session_text
                 else (case env_prompt env of
                         None \<Rightarrow> (None, rc, [SessionPrompt (the sessionId) (rc_directory rc) text'])
                       | Some error \<Rightarrow>
                           after_call (SessionPrompt (the sessionId) (rc_directory rc) text')
                             (channel_send env rc
                                ([10060] @ js '' Failed to send message: '' @ error_string error))))"

subsection \<open>Vocabulary for the statements about the remote controller\<close>

text \<open>
  The three answers of \<open>setActiveSession\<close>, and the controller after session \<open>sid\<close> has
  been made the active one: the id is in the state in memory and in the file.
\<close>

definition not_found_text :: jsstring where
  "not_found_text = js ''Session not found. Use '' @ [96] @ js ''/list'' @ [96] @ js '' to see recent sessions.''"

definition ambiguous_text :: jsstring where
  "ambiguous_text = js ''Multiple matches. Use a longer session ID prefix.''"

definition selected_text :: "jsstring \<Rightarrow> jsstring" where
  "selected_text sid = js ''Active session set to '' @ [96] @ take 8 sid @ [96]"

definition select_session :: "remote_controller \<Rightarrow> jsstring \<Rightarrow> remote_controller" where
  "select_session rc sid =
     rc\<lparr>rc_stateStore :=
          \<lparr>ss_state = (ss_state (rc_stateStore rc))\<lparr>cs_activeSessionId := Some sid\<rparr>,
           ss_file = Some ((ss_state (rc_stateStore rc))\<lparr>cs_activeSessionId := Some sid\<rparr>)\<rparr>\<rparr>"

section \<open>Example data\<close>

definition example_request :: "string \<Rightarrow> request_fields" where
  "example_request name =
     \<lparr>rq_id = js name, rq_sessionId = js ''s1'', rq_messageId = js name, rq_tool = js ''bash'',
      rq_args = ArgString (js ''ls''), rq_timestamp = 0\<rparr>"

definition example_store :: pending_state where
  "example_store =
     run [Add (example_request ''r1''), Add (example_request ''r2'')] (PendingRequestsStore 300000)"

definition example_config :: telegram_config where
  "example_config = \<lparr>botToken = js ''token'', chatId = js ''1001'', parseMode = Markdown\<rparr>"

definition example_channel :: telegram_channel where
  "example_channel = (TelegramChannel example_config)\<lparr>pendingMessageIds := [(js ''r1'', 42)], responseCallbacks := [0]\<rparr>"

definition example_permission_request :: "string \<Rightarrow> permission_request" where
  "example_permission_request name =
     \<lparr>req_id = js name, req_sessionId = js ''s1'', req_tool = js ''bash'',
      req_args = ArgString (js ''ls''), req_description = None, req_timestamp = 0\<rparr>"

definition reply_update :: "int \<Rightarrow> jsstring \<Rightarrow> telegram_update" where
  "reply_update target text' =
     \<lparr>update_id = 1,
      upd_message = Some \<lparr>msg_message_id = 2, msg_chat_id = 3, msg_text = Some text',
                           msg_reply_to_message = Some target\<rparr>,
      upd_callback_query = None\<rparr>"

definition text_update :: "jsstring \<Rightarrow> telegram_update" where
  "text_update text' =
     \<lparr>update_id = 1,
      upd_message = Some \<lparr>msg_message_id = 2, msg_chat_id = 3, msg_text = Some text',
                           msg_reply_to_message = None\<rparr>,
      upd_callback_query = None\<rparr>"

definition accepted :: "int \<Rightarrow> int telegram_response" where
  "accepted m = \<lparr>tr_ok = True, tr_result = Some m, tr_description = None\<rparr>"

definition example_controller :: remote_controller where
  "example_controller =
     \<lparr>rc_stateStore = \<lparr>ss_state = \<lparr>cs_enabled = Some True, cs_activeSessionId = None,
                                    cs_lastUpdateId = None\<rparr>,
                       ss_file = None\<rparr>,
      rc_directory = js ''/work'', rc_enabled = True\<rparr>"

definition example_sessions :: "session list" where
  "example_sessions =
     [\<lparr>sess_id = js ''ses_abc1'', sess_title = js ''first'', sess_updated = 10\<rparr>,
      \<lparr>sess_id = js ''ses_abd2'', sess_title = js ''second'', sess_updated = 30\<rparr>,
      \<lparr>sess_id = js ''ses_xyz3'', sess_title = [], sess_updated = 20\<rparr>]"

definition example_env :: remote_env where
  "example_env = \<lparr>env_list = Inr (Some example_sessions), env_prompt = None, env_send = None\<rparr>"

section \<open>Properties of the pending-request store\<close>

subsection \<open>Promises and association lists\<close>

lemma length_settle [simp]: "length (settle p v ps) = length ps"
  by (simp add: settle_def)

lemma settle_other: "q \<noteq> p \<Longrightarrow> settle p v ps ! q = ps ! q"
  by (simp add: settle_def)

lemma settle_settled: "ps ! q \<noteq> Unsettled \<Longrightarrow> settle p v ps ! q = ps ! q"
  by (cases "q = p") (auto simp: settle_def)

lemma settle_hit: "p < length ps \<Longrightarrow> ps ! p = Unsettled \<Longrightarrow> settle p v ps ! p = v"
  by (simp add: settle_def)

lemma set_update_subset: "set (AList.update k v al) \<subseteq> insert (k, v) (set al)"
  by (induction al) auto

lemma set_delete_subset: "set (AList.delete k al) \<subseteq> set al"
  by (auto simp: AList.delete_eq)

lemma set_delete_key: "(k', r) \<in> set (AList.delete k al) \<Longrightarrow> k' \<noteq> k"
  by (auto simp: AList.delete_eq)

lemma distinct_map_update:
  "distinct (map f al) \<Longrightarrow> \<forall>kr \<in> set al. f kr \<noteq> f (k, v) \<Longrightarrow>
   distinct (map f (AList.update k v al))"
proof (induction al)
  case Nil
  then show ?case by simp
next
  case (Cons a al)
  have "f ` set (AList.update k v al) \<subseteq> insert (f (k, v)) (f ` set al)"
    using set_update_subset [of k v al] by auto
  with Cons show ?case by auto
qed

lemma distinct_map_delete:
  "distinct (map f al) \<Longrightarrow> distinct (map f (AList.delete k al))"
  by (simp add: AList.delete_eq distinct_map_filter)

lemma wf_add: assumes "wf_store st" shows "wf_store (snd (add st request))"
proof -
  let ?p = "length (promises st)"
  let ?v = "\<lparr>pr_request = request, resolver = ?p, rejecter = ?p\<rparr>"
  let ?rs = "AList.update (rq_id request) ?v (requests st)"
  from assms have d1: "distinct (map fst (requests st))"
    and d2: "distinct (map (\<lambda>kr. resolver (snd kr)) (requests st))"
    and en: "\<And>k r. (k, r) \<in> set (requests st) \<Longrightarrow>
        rq_id (pr_request r) = k \<and> rejecter r = resolver r \<and>
        resolver r < length (promises st) \<and> promises st ! resolver r = Unsettled"
    and ti: "\<And>d k p. (d, k, p) \<in> set (timers st) \<Longrightarrow>
        p < length (promises st) \<and> (\<forall>(k', r) \<in> set (requests st). resolver r = p \<longrightarrow> k' = k)"
    by (auto simp: wf_store_def)
  have sub: "set ?rs \<subseteq> insert (rq_id request, ?v) (set (requests st))"
    by (rule set_update_subset)
  have a: "distinct (map fst ?rs)" using d1 by (rule AList.distinct_update)
  have b: "distinct (map (\<lambda>kr. resolver (snd kr)) ?rs)"
    using d2 by (rule distinct_map_update) (use en in fastforce)
  have c: "\<forall>(k, r) \<in> set ?rs. rq_id (pr_request r) = k \<and> rejecter r = resolver r \<and>
        resolver r < length (promises st @ [Unsettled]) \<and> (promises st @ [Unsettled]) ! resolver r = Unsettled"
  proof (clarify)
    fix k r assume "(k, r) \<in> set ?rs"
    with sub have "(k, r) = (rq_id request, ?v) \<or> (k, r) \<in> set (requests st)" by auto
    then show "rq_id (pr_request r) = k \<and> rejecter r = resolver r \<and>
        resolver r < length (promises st @ [Unsettled]) \<and> (promises st @ [Unsettled]) ! resolver r = Unsettled"
      using en by (auto simp: nth_append)
  qed
  have d: "\<forall>(d, k, p) \<in> set (timers st @ [(timeoutMs st, rq_id request, ?p)]).
        p < length (promises st @ [Unsettled]) \<and> (\<forall>(k', r) \<in> set ?rs. resolver r = p \<longrightarrow> k' = k)"
  proof (clarify)
    fix d k p assume t: "(d, k, p) \<in> set (timers st @ [(timeoutMs st, rq_id request, ?p)])"
    show "p < length (promises st @ [Unsettled]) \<and> (\<forall>(k', r) \<in> set ?rs. resolver r = p \<longrightarrow> k' = k)"
    proof (cases "(d, k, p) \<in> set (timers st)")
      case True
      from ti [OF True] have p: "p < length (promises st)"
        and o: "\<And>k' r. (k', r) \<in> set (requests st) \<Longrightarrow> resolver r = p \<Longrightarrow> k' = k" by auto
      show ?thesis
      proof (intro conjI, goal_cases)
        case 1 show ?case using p by simp
      next
        case 2 show ?case
        proof clarify
          fix k' r assume "(k', r) \<in> set ?rs" "p = resolver r"
          with sub p o show "k' = k" by auto
        qed
      qed
    next
      case False
      with t have e: "k = rq_id request" "p = ?p" by auto
      show ?thesis
      proof (intro conjI, goal_cases)
        case 1 show ?case using e by simp
      next
        case 2 show ?case
        proof clarify
          fix k' r assume "(k', r) \<in> set ?rs" "p = resolver r"
          with sub e en show "k' = k" by fastforce
        qed
      qed
    qed
  qed
  show ?thesis
    unfolding wf_store_def add_def Let_def using a b c d by simp
qed

subsection \<open>A completed request stays completed\<close>

lemma resolve_absent: "\<not> has st rid \<Longrightarrow> resolve st rid response = (False, st)"
  by (simp add: has_def resolve_def)

lemma reject_absent: "\<not> has st rid \<Longrightarrow> reject st rid err = (False, st)"
  by (simp add: has_def reject_def)

lemma timeout_absent: "\<not> has st rid \<Longrightarrow> timeout_callback rid p st = st"
  by (simp add: timeout_callback_def)

lemma attempt_absent: "\<not> has st rid \<Longrightarrow> attempt c st rid = (False, st)"
  by (cases c) (simp_all add: resolve_absent reject_absent timeout_absent)

lemma attempt_present: "has st rid \<Longrightarrow> fst (attempt c st rid) \<and> \<not> has (snd (attempt c st rid)) rid"
  by (cases c) (auto simp: has_def resolve_def reject_def timeout_callback_def AList.delete_conv')

lemma has_timers_upd [simp]: "has (st\<lparr>timers := ts\<rparr>) rid = has st rid"
  by (simp add: has_def)

lemma exec_keeps_absent:
  "\<not> has st rid \<Longrightarrow> \<not> registers rid e \<Longrightarrow> \<not> has (exec e st) rid"
  by (cases e)
     (auto simp: has_def add_def Let_def resolve_def reject_def fire_timer_def timeout_callback_def
        clear_def setTimeoutMs_def AList.update_conv' AList.delete_conv' split: option.splits prod.splits if_splits)

lemma run_keeps_absent:
  "\<not> has st rid \<Longrightarrow> \<forall>e \<in> set evs. \<not> registers rid e \<Longrightarrow> \<not> has (run evs st) rid"
  unfolding run_def
  by (induction evs arbitrary: st) (auto simp: exec_keeps_absent)

subsection \<open>The invariant holds in every state a run reaches\<close>

lemma wf_remove:
  assumes wf: "wf_store st"
    and own: "\<forall>(k', r) \<in> set (requests st). resolver r = p \<longrightarrow> k' = k"
  shows "wf_store (st\<lparr>requests := AList.delete k (requests st), promises := settle p v (promises st)\<rparr>)"
proof -
  let ?rs = "AList.delete k (requests st)"
  from wf have d1: "distinct (map fst (requests st))"
    and d2: "distinct (map (\<lambda>kr. resolver (snd kr)) (requests st))"
    and en: "\<And>k r. (k, r) \<in> set (requests st) \<Longrightarrow>
        rq_id (pr_request r) = k \<and> rejecter r = resolver r \<and>
        resolver r < length (promises st) \<and> promises st ! resolver r = Unsettled"
    and ti: "\<And>d k p. (d, k, p) \<in> set (timers st) \<Longrightarrow>
        p < length (promises st) \<and> (\<forall>(k', r) \<in> set (requests st). resolver r = p \<longrightarrow> k' = k)"
    by (auto simp: wf_store_def)
  have a: "distinct (map fst ?rs)" using d1 by (rule AList.distinct_delete)
  have b: "distinct (map (\<lambda>kr. resolver (snd kr)) ?rs)" using d2 by (rule distinct_map_delete)
  have c: "\<forall>(k', r) \<in> set ?rs. rq_id (pr_request r) = k' \<and> rejecter r = resolver r \<and>
        resolver r < length (settle p v (promises st)) \<and> settle p v (promises st) ! resolver r = Unsettled"
  proof clarify
    fix k' r assume m: "(k', r) \<in> set ?rs"
    then have i: "(k', r) \<in> set (requests st)" and n: "k' \<noteq> k"
      using set_delete_subset [of k "requests st"] by (auto dest: set_delete_key)
    from own i n have "resolver r \<noteq> p" by auto
    then show "rq_id (pr_request r) = k' \<and> rejecter r = resolver r \<and>
        resolver r < length (settle p v (promises st)) \<and> settle p v (promises st) ! resolver r = Unsettled"
      using en [OF i] by (simp add: settle_other)
  qed
  have d: "\<forall>(d, k', q) \<in> set (timers st). q < length (settle p v (promises st)) \<and>
        (\<forall>(k'', r) \<in> set ?rs. resolver r = q \<longrightarrow> k'' = k')"
  proof clarify
    fix d k' q assume t: "(d, k', q) \<in> set (timers st)"
    from ti [OF t] set_delete_subset [of k "requests st"]
    show "q < length (settle p v (promises st)) \<and> (\<forall>(k'', r) \<in> set ?rs. resolver r = q \<longrightarrow> k'' = k')"
      by auto
  qed
  show ?thesis unfolding wf_store_def using a b c d by simp
qed

lemma wf_entry_owner:
  assumes wf: "wf_store st" and m: "map_of (requests st) k = Some request"
  shows "\<forall>(k', r) \<in> set (requests st). resolver r = resolver request \<longrightarrow> k' = k"
proof clarify
  fix k' r assume i: "(k', r) \<in> set (requests st)" and e: "resolver r = resolver request"
  from m have j: "(k, request) \<in> set (requests st)" by (rule map_of_SomeD)
  from wf have "inj_on (\<lambda>kr. resolver (snd kr)) (set (requests st))"
    by (simp add: wf_store_def distinct_map)
  from inj_onD [OF this, of "(k', r)" "(k, request)"] i j e have "(k', r) = (k, request)" by simp
  then show "k' = k" by simp
qed

lemma wf_resolve: assumes "wf_store st" shows "wf_store (snd (resolve st rid response))"
proof (cases "map_of (requests st) rid")
  case None
  with assms show ?thesis by (simp add: resolve_def)
next
  case (Some request)
  from wf_remove [OF assms wf_entry_owner [OF assms Some]] Some
  show ?thesis by (simp add: resolve_def)
qed

lemma wf_reject: assumes "wf_store st" shows "wf_store (snd (reject st rid err))"
proof (cases "map_of (requests st) rid")
  case None
  with assms show ?thesis by (simp add: reject_def)
next
  case (Some request)
  then have "(rid, request) \<in> set (requests st)" by (rule map_of_SomeD)
  with assms have "rejecter request = resolver request" by (auto simp: wf_store_def)
  with wf_remove [OF assms wf_entry_owner [OF assms Some]] Some
  show ?thesis by (simp add: reject_def)
qed

lemma wf_drop_timer:
  assumes "wf_store st" and "set ts \<subseteq> set (timers st)"
  shows "wf_store (st\<lparr>timers := ts\<rparr>)"
  using assms unfolding wf_store_def by (simp add: subset_iff) blast

lemma wf_fire_timer: assumes wf: "wf_store st" shows "wf_store (fire_timer n st)"
proof (cases "n < length (timers st)")
  case False
  with wf show ?thesis by (simp add: fire_timer_def)
next
  case True
  obtain d rid p where t: "timers st ! n = (d, rid, p)" by (cases "timers st ! n") auto
  let ?ts = "take n (timers st) @ drop (Suc n) (timers st)"
  let ?st = "st\<lparr>timers := ?ts\<rparr>"
  have sub: "set ?ts \<subseteq> set (timers st)"
    using set_take_subset [of n "timers st"] set_drop_subset [of "Suc n" "timers st"] by auto
  then have wf': "wf_store ?st" by (rule wf_drop_timer [OF wf])
  from True t have "(d, rid, p) \<in> set (timers st)" by (metis nth_mem)
  with wf have own: "\<forall>(k', r) \<in> set (requests ?st). resolver r = p \<longrightarrow> k' = rid"
    by (auto simp: wf_store_def)
  have "wf_store (timeout_callback rid p ?st)"
    using wf' wf_remove [OF wf' own] by (simp add: timeout_callback_def)
  with True t show ?thesis by (simp add: fire_timer_def)
qed

lemma length_fold_settle [simp]:
  "length (fold (\<lambda>r. settle (f r) v) rs ps) = length ps"
  by (induction rs arbitrary: ps) auto

lemma wf_clear: assumes "wf_store st" shows "wf_store (clear st)"
  using assms unfolding wf_store_def clear_def by auto

lemma wf_exec: "wf_store st \<Longrightarrow> wf_store (exec e st)"
  by (cases e) (simp_all add: wf_add wf_resolve wf_reject wf_fire_timer wf_clear,
      simp add: wf_store_def setTimeoutMs_def)

lemma wf_new: "wf_store (PendingRequestsStore ms)"
  by (simp add: wf_store_def PendingRequestsStore_def)

lemma wf_run: "wf_store st \<Longrightarrow> wf_store (run evs st)"
  unfolding run_def by (induction evs arbitrary: st) (auto simp: wf_exec)

subsection \<open>Settled promises are final; \<open>clear\<close> settles the rest\<close>

lemma fold_settle_settled:
  "ps ! q \<noteq> Unsettled \<Longrightarrow> fold (\<lambda>r. settle (f r) v) rs ps ! q = ps ! q"
  by (induction rs arbitrary: ps) (auto simp: settle_settled)

lemma fold_settle_all:
  assumes "v \<noteq> Unsettled"
    and "\<forall>r \<in> set rs. f r < length ps \<and> (ps ! f r = Unsettled \<or> ps ! f r = v)"
  shows "\<forall>r \<in> set rs. fold (\<lambda>r. settle (f r) v) rs ps ! f r = v"
  using assms(2)
proof (induction rs arbitrary: ps)
  case Nil
  then show ?case by simp
next
  case (Cons a rs)
  let ?ps = "settle (f a) v ps"
  from Cons.prems have a: "f a < length ps" "ps ! f a = Unsettled \<or> ps ! f a = v" by auto
  then have hit: "?ps ! f a = v" using assms(1) by (auto simp: settle_hit settle_settled)
  have pre: "\<forall>r \<in> set rs. f r < length ?ps \<and> (?ps ! f r = Unsettled \<or> ?ps ! f r = v)"
  proof
    fix r assume r: "r \<in> set rs"
    show "f r < length ?ps \<and> (?ps ! f r = Unsettled \<or> ?ps ! f r = v)"
    proof (cases "f r = f a")
      case True
      with hit a show ?thesis by simp
    next
      case False
      with Cons.prems r show ?thesis by (simp add: settle_other)
    qed
  qed
  from Cons.IH [OF pre] have rest: "\<forall>r \<in> set rs. fold (\<lambda>r. settle (f r) v) rs ?ps ! f r = v" .
  from hit assms(1) have "fold (\<lambda>r. settle (f r) v) rs ?ps ! f a = v"
    by (simp add: fold_settle_settled)
  with rest show ?case by simp
qed

lemma clear_wf:
  assumes wf: "wf_store st"
  shows "requests (clear st) = [] \<and> distinct (map rejecter (getAll st)) \<and>
    (\<forall>request \<in> set (getAll st).
        promises st ! rejecter request = Unsettled \<and>
        promises (clear st) ! rejecter request = Rejected store_cleared)"
proof -
  from wf have en: "\<And>k r. (k, r) \<in> set (requests st) \<Longrightarrow>
        rejecter r = resolver r \<and> resolver r < length (promises st) \<and> promises st ! resolver r = Unsettled"
    by (auto simp: wf_store_def)
  then have pre: "\<forall>r \<in> set (map snd (requests st)).
      rejecter r < length (promises st) \<and>
      (promises st ! rejecter r = Unsettled \<or> promises st ! rejecter r = Rejected store_cleared)"
    by auto
  have all: "\<forall>request \<in> set (getAll st). promises (clear st) ! rejecter request = Rejected store_cleared"
    using fold_settle_all [OF _ pre] by (simp add: clear_def getAll_def)
  have "map rejecter (getAll st) = map (\<lambda>kr. resolver (snd kr)) (requests st)"
    using en by (auto simp: getAll_def)
  with wf have "distinct (map rejecter (getAll st))" by (simp add: wf_store_def)
  moreover have "\<forall>request \<in> set (getAll st). promises st ! rejecter request = Unsettled"
    using en by (auto simp: getAll_def)
  ultimately show ?thesis using all by (simp add: clear_def)
qed

lemma length_promises_exec: "length (promises st) \<le> length (promises (exec e st))"
  by (cases e)
     (auto simp: add_def Let_def resolve_def reject_def fire_timer_def timeout_callback_def
        clear_def setTimeoutMs_def split: option.splits prod.splits)

lemma settled_exec:
  "q < length (promises st) \<Longrightarrow> promises st ! q \<noteq> Unsettled \<Longrightarrow>
   promises (exec e st) ! q = promises st ! q"
  by (cases e)
     (auto simp: add_def Let_def resolve_def reject_def fire_timer_def timeout_callback_def
        clear_def setTimeoutMs_def nth_append settle_settled fold_settle_settled
        split: option.splits prod.splits)

lemma settled_run:
  "q < length (promises st) \<Longrightarrow> promises st ! q \<noteq> Unsettled \<Longrightarrow>
   promises (run evs st) ! q = promises st ! q"
  unfolding run_def
proof (induction evs arbitrary: st)
  case Nil
  then show ?case by simp
next
  case (Cons e evs)
  have "q < length (promises (exec e st))"
    using Cons.prems(1) length_promises_exec [of st e] by simp
  moreover have "promises (exec e st) ! q \<noteq> Unsettled"
    using Cons.prems by (simp add: settled_exec)
  ultimately show ?case using Cons.IH [of "exec e st"] Cons.prems by (simp add: settled_exec)
qed

lemma attempt_outcome:
  assumes wf: "wf_store st" and g: "get st rid = Some request" and o: "own_timer c request"
  shows "rejecter request < length (promises (snd (attempt c st rid))) \<and>
         promises (snd (attempt c st rid)) ! rejecter request = outcome c rid"
proof -
  from g have m: "map_of (requests st) rid = Some request" by (simp add: get_def)
  then have "(rid, request) \<in> set (requests st)" by (rule map_of_SomeD)
  with wf have e: "rejecter request = resolver request" "resolver request < length (promises st)"
    "promises st ! resolver request = Unsettled" by (auto simp: wf_store_def)
  from m have h: "has st rid" by (simp add: has_def)
  show ?thesis
    using e m h o by (cases c) (simp_all add: resolve_def reject_def timeout_callback_def settle_hit)
qed

lemmas store_eval = example_store_def example_request_def run_def add_def Let_def
  PendingRequestsStore_def get_def has_def resolve_def reject_def timeout_callback_def
  fire_timer_def clear_def getAll_def settle_def js_def timeout_error_def store_cleared_def

text \<open>
  Claim C1.  Take a store reached by any run, and a request id \<open>rid\<close> registered in it
  with record \<open>request\<close>.  Whichever of \<open>resolve\<close>, \<open>reject\<close> and the request's own timer
  fires first succeeds, removes \<open>rid\<close> from the map and settles the awaitable with its
  outcome.  After that, and after any further events that do not register \<open>rid\<close> again,
  every \<open>resolve\<close> and \<open>reject\<close> call for \<open>rid\<close> returns false and leaves the whole state
  unchanged, the timer callback for \<open>rid\<close> changes nothing, and the awaitable still holds
  the outcome of the first completion: at most one of them ever completes it.
\<close>

theorem exactly_one_completion:
  assumes "st = run pre (PendingRequestsStore ms)"
    and "get st rid = Some request"
    and "own_timer c request"
    and "\<forall>e \<in> set evs. \<not> registers rid e"
  shows "fst (attempt c st rid) \<and>
         \<not> has (snd (attempt c st rid)) rid \<and>
         promises (snd (attempt c st rid)) ! rejecter request = outcome c rid \<and>
         resolve (run evs (snd (attempt c st rid))) rid response = (False, run evs (snd (attempt c st rid))) \<and>
         reject (run evs (snd (attempt c st rid))) rid err = (False, run evs (snd (attempt c st rid))) \<and>
         timeout_callback rid p (run evs (snd (attempt c st rid))) = run evs (snd (attempt c st rid)) \<and>
         promises (run evs (snd (attempt c st rid))) ! rejecter request = outcome c rid"
proof -
  let ?st1 = "snd (attempt c st rid)"
  let ?st2 = "run evs ?st1"
  from assms(1) have wf: "wf_store st" by (simp add: wf_run wf_new)
  from assms(2) have h: "has st rid" by (simp add: has_def get_def)
  from attempt_present [OF h] have a: "fst (attempt c st rid)" and b: "\<not> has ?st1 rid" by auto
  from attempt_outcome [OF wf assms(2,3)] have l: "rejecter request < length (promises ?st1)"
    and o: "promises ?st1 ! rejecter request = outcome c rid" by auto
  from b assms(4) have n: "\<not> has ?st2 rid" by (rule run_keeps_absent)
  have "outcome c rid \<noteq> Unsettled" by (cases c) simp_all
  with o have "promises ?st1 ! rejecter request \<noteq> Unsettled" by simp
  from settled_run [OF l this] o have f: "promises ?st2 ! rejecter request = outcome c rid" by simp
  show ?thesis
    using a b o f resolve_absent [OF n] reject_absent [OF n] timeout_absent [OF n] by simp
qed

theorem exactly_one_completion_witness:
  "get example_store (js ''r1'') = Some \<lparr>pr_request = example_request ''r1'', resolver = 0, rejecter = 0\<rparr> \<and>
   fst (attempt (ByTimeout 0) example_store (js ''r1'')) \<and>
   promises (snd (attempt (ByTimeout 0) example_store (js ''r1''))) ! 0 = Rejected (timeout_error (js ''r1'')) \<and>
   fst (resolve (run [Resolve (js ''r1'') (js ''allow''), TimerFires 0]
          (snd (attempt (ByTimeout 0) example_store (js ''r1'')))) (js ''r1'') (js ''deny'')) = False"
proof -
  let ?rq = "\<lparr>pr_request = example_request ''r1'', resolver = 0, rejecter = 0\<rparr>"
  let ?evs = "[Resolve (js ''r1'') (js ''allow''), TimerFires 0]"
  have h1: "example_store = run [Add (example_request ''r1''), Add (example_request ''r2'')] (PendingRequestsStore 300000)"
    by (simp add: example_store_def)
  have h2: "get example_store (js ''r1'') = Some ?rq"
    by (simp add: store_eval)
  have h3: "own_timer (ByTimeout 0) ?rq" by simp
  have h4: "\<forall>e \<in> set ?evs. \<not> registers (js ''r1'') e" by simp
  from exactly_one_completion [OF h1 h2 h3 h4, of "js ''deny''"] h2
  show ?thesis by simp
qed

text \<open>
  Claim C5.  In a store reached by any run, the records held in the map have pairwise
  distinct awaitables, none of them settled; after \<open>clear()\<close> every one of them is rejected
  with the error \<open>Store cleared\<close>, and the map is empty.
\<close>

theorem clear_fails_every_outstanding_request:
  assumes "st = run evs (PendingRequestsStore ms)"
  shows "requests (clear st) = [] \<and> getAll (clear st) = [] \<and>
         distinct (map rejecter (getAll st)) \<and>
         (\<forall>request \<in> set (getAll st).
            promises st ! rejecter request = Unsettled \<and>
            promises (clear st) ! rejecter request = Rejected store_cleared)"
proof -
  from assms have "wf_store st" by (simp add: wf_run wf_new)
  from clear_wf [OF this] show ?thesis by (simp add: getAll_def)
qed

theorem clear_fails_every_outstanding_request_witness:
  "map rejecter (getAll example_store) = [0, 1] \<and>
   promises example_store = [Unsettled, Unsettled] \<and>
   promises (clear example_store) ! 0 = Rejected store_cleared \<and>
   promises (clear example_store) ! 1 = Rejected store_cleared \<and>
   requests (clear example_store) = []"
proof -
  have h: "example_store =
      run [Add (example_request ''r1''), Add (example_request ''r2'')] (PendingRequestsStore 300000)"
    by (simp add: example_store_def)
  have g: "map rejecter (getAll example_store) = [0, 1]"
    by (simp add: store_eval)
  then have m: "\<exists>a b. getAll example_store = [a, b] \<and> rejecter a = 0 \<and> rejecter b = 1"
    by auto
  have p: "promises example_store = [Unsettled, Unsettled]"
    by (simp add: store_eval)
  from m obtain a b where ab: "getAll example_store = [a, b]" "rejecter a = 0" "rejecter b = 1"
    by blast
  from clear_fails_every_outstanding_request [OF h] ab
  have "promises (clear example_store) ! 0 = Rejected store_cleared"
    and "promises (clear example_store) ! 1 = Rejected store_cleared"
    and "requests (clear example_store) = []"
    by auto
  with g p show ?thesis by simp
qed

section \<open>Properties of the channel\<close>

subsection \<open>Message ids as strings\<close>

lemma digits_nonempty: "digits n \<noteq> []"
  by (subst digits.simps) simp

lemma digits_ge: "c \<in> set (digits n) \<Longrightarrow> 48 \<le> c"
  by (induction n arbitrary: c rule: digits.induct) (subst (asm) digits.simps, auto split: if_splits)

lemma digits_inj: "digits a = digits b \<Longrightarrow> a = b"
proof (induction a arbitrary: b rule: digits.induct)
  case (1 n)
  show ?case
  proof (cases "n < 10")
    case True
    then have n: "digits n = [48 + n]" by (subst digits.simps) simp
    show ?thesis
    proof (cases "b < 10")
      case True
      then have "digits b = [48 + b]" by (subst digits.simps) simp
      with n "1.prems" show ?thesis by simp
    next
      case False
      then have "digits b = digits (b div 10) @ [48 + b mod 10]" by (subst digits.simps) simp
      with n "1.prems" digits_nonempty [of "b div 10"] show ?thesis by simp
    qed
  next
    case False
    then have n: "digits n = digits (n div 10) @ [48 + n mod 10]" by (subst digits.simps) simp
    show ?thesis
    proof (cases "b < 10")
      case True
      then have "digits b = [48 + b]" by (subst digits.simps) simp
      with n "1.prems" digits_nonempty [of "n div 10"] show ?thesis by simp
    next
      case b: False
      then have "digits b = digits (b div 10) @ [48 + b mod 10]" by (subst digits.simps) simp
      with n "1.prems" have "digits (n div 10) = digits (b div 10)" and m: "n mod 10 = b mod 10"
        by auto
      with "1.IH" [OF False] have "n div 10 = b div 10" by simp
      with m show ?thesis by (metis div_mult_mod_eq)
    qed
  qed
qed

lemma toString_inj: "toString a = toString b \<Longrightarrow> a = b"
proof -
  have neg: "\<And>n m. 45 # digits n \<noteq> digits m"
  proof
    fix n m assume "45 # digits n = digits m"
    then have "(45::nat) \<in> set (digits m)" by (metis list.set_intros(1))
    from digits_ge [OF this] show False by simp
  qed
  assume e: "toString a = toString b"
  show ?thesis
  proof (cases "a < 0"; cases "b < 0")
    assume "a < 0" "b < 0"
    with e have "digits (nat (- a)) = digits (nat (- b))" by (simp add: toString_def)
    from digits_inj [OF this] \<open>a < 0\<close> \<open>b < 0\<close> show ?thesis by simp
  next
    assume "a < 0" "\<not> b < 0"
    with e neg show ?thesis by (simp add: toString_def)
  next
    assume "\<not> a < 0" "b < 0"
    with e neg [of "nat (- b)" "nat a"] show ?thesis by (simp add: toString_def)
  next
    assume "\<not> a < 0" "\<not> b < 0"
    with e have "digits (nat a) = digits (nat b)" by (simp add: toString_def)
    from digits_inj [OF this] \<open>\<not> a < 0\<close> \<open>\<not> b < 0\<close> show ?thesis by simp
  qed
qed

subsection \<open>Looking up the correlation table\<close>

lemma find_SomeD: "find P xs = Some x \<Longrightarrow> P x \<and> x \<in> set xs"
  by (induction xs) (auto split: if_splits)

lemma find_some_entry:
  assumes "findRequestIdByMessageId ch (toString m) = Some r"
  shows "(r, m) \<in> set (pendingMessageIds ch)"
proof -
  from assms obtain m' where
    "find (\<lambda>(reqId, msgId). toString msgId = toString m) (pendingMessageIds ch) = Some (r, m')"
    by (auto simp: findRequestIdByMessageId_def split: option.splits)
  from find_SomeD [OF this] have "toString m' = toString m" and "(r, m') \<in> set (pendingMessageIds ch)"
    by auto
  with toString_inj show ?thesis by blast
qed

lemma find_some_key:
  assumes "findRequestIdByMessageId ch n = Some r"
  shows "r \<in> fst ` set (pendingMessageIds ch)"
proof -
  from assms obtain m' where
    "find (\<lambda>(reqId, msgId). toString msgId = n) (pendingMessageIds ch) = Some (r, m')"
    by (auto simp: findRequestIdByMessageId_def split: option.splits)
  from find_SomeD [OF this] have "(r, m') \<in> set (pendingMessageIds ch)" by simp
  then show ?thesis by force
qed

lemma find_present:
  assumes "(r, m) \<in> set (pendingMessageIds ch)"
  shows "\<exists>r'. findRequestIdByMessageId ch (toString m) = Some r'"
proof (cases "find (\<lambda>(reqId, msgId). toString msgId = toString m) (pendingMessageIds ch)")
  case None
  with assms show ?thesis by (auto simp: find_None_iff)
next
  case (Some a)
  then show ?thesis by (cases a) (simp add: findRequestIdByMessageId_def)
qed

lemma handleUpdate_reply:
  assumes "text' \<noteq> []"
  shows "handleUpdate toLowerCase ch (reply_update m text') =
     (case findRequestIdByMessageId ch (toString m) of
        None \<Rightarrow> []
      | Some r \<Rightarrow> if r = [] then [] else notifyResponse ch r (parseResponse toLowerCase text'))"
  using assms by (simp add: handleUpdate_def reply_update_def truthy_def Let_def split: option.splits)

lemmas channel_eval = example_channel_def example_config_def TelegramChannel_def js_def
  example_permission_request_def

lemma lowers_ascii_ascii: "lowers_ascii ascii_toLowerCase"
  by (simp add: lowers_ascii_def)

subsection \<open>\<open>sendPermissionRequest\<close>\<close>

text \<open>
  Claim C2, as amended.  When the service accepts the message and answers with native
  message id \<open>m\<close>, \<open>sendPermissionRequest\<close> returns the request's own id (not \<open>m\<close>) and
  has stored \<open>m\<close> under that id in the correlation table when it returns.  From then on a
  lookup of \<open>m\<close> finds a request whose entry is \<open>m\<close>; when no older entry holds \<open>m\<close> it
  finds this request, and a reply to message \<open>m\<close> with a non-empty text is passed to the
  response callbacks under this request's id.
\<close>

theorem sendPermissionRequest_registers_native_id:
  assumes "req_args request \<noteq> ArgNoJson" and "tr_ok data" and "tr_result data = Some m"
  shows "(\<exists>post. sendPermissionRequest ch request (Json data) =
            (Inr (req_id request),
             ch\<lparr>pendingMessageIds := AList.update (req_id request) m (pendingMessageIds ch)\<rparr>,
             [post])) \<and>
         map_of (pendingMessageIds (fst (snd (sendPermissionRequest ch request (Json data)))))
           (req_id request) = Some m \<and>
         (\<exists>r. findRequestIdByMessageId (fst (snd (sendPermissionRequest ch request (Json data))))
                 (toString m) = Some r \<and>
              (r, m) \<in> set (pendingMessageIds (fst (snd (sendPermissionRequest ch request (Json data)))))) \<and>
         (m \<notin> snd ` set (pendingMessageIds ch) \<longrightarrow>
            findRequestIdByMessageId (fst (snd (sendPermissionRequest ch request (Json data))))
              (toString m) = Some (req_id request) \<and>
            (req_id request \<noteq> [] \<and> text' \<noteq> [] \<longrightarrow>
               handleUpdate toLowerCase (fst (snd (sendPermissionRequest ch request (Json data))))
                   (reply_update m text') =
               notifyResponse ch (req_id request) (parseResponse toLowerCase text')))"
proof -
  let ?ch = "ch\<lparr>pendingMessageIds := AList.update (req_id request) m (pendingMessageIds ch)\<rparr>"
  from assms(1) obtain t where f: "formatPermissionMessage request = Inr t"
    by (cases "req_args request") (simp_all add: formatPermissionMessage_def Let_def)
  with assms(2,3) have s: "sendPermissionRequest ch request (Json data) =
      (Inr (req_id request), ?ch,
       [PostSendMessage (chatId (config ch)) t (parseMode (config ch)) permission_buttons])"
    by (simp add: sendPermissionRequest_def Let_def)
  have m: "map_of (pendingMessageIds ?ch) (req_id request) = Some m"
    by (simp add: AList.update_conv')
  then have i: "(req_id request, m) \<in> set (pendingMessageIds ?ch)" by (rule map_of_SomeD)
  from find_present [OF i] obtain r where r: "findRequestIdByMessageId ?ch (toString m) = Some r"
    by blast
  from find_some_entry [OF r] have e: "(r, m) \<in> set (pendingMessageIds ?ch)" .
  have u: "r = req_id request" if "m \<notin> snd ` set (pendingMessageIds ch)"
  proof -
    from e set_update_subset [of "req_id request" m "pendingMessageIds ch"]
    have "(r, m) = (req_id request, m) \<or> (r, m) \<in> set (pendingMessageIds ch)" by auto
    with that show ?thesis by force
  qed
  have n: "notifyResponse ?ch a b = notifyResponse ch a b" for a b
    by (simp add: notifyResponse_def)
  show ?thesis
    using s m r e u by (auto simp: handleUpdate_reply n)
qed

theorem sendPermissionRequest_registers_native_id_witness:
  "fst (sendPermissionRequest example_channel (example_permission_request ''r2'') (Json (accepted 43))) = Inr (js ''r2'') \<and>
   pendingMessageIds (fst (snd (sendPermissionRequest example_channel (example_permission_request ''r2'') (Json (accepted 43)))))
     = [(js ''r1'', 42), (js ''r2'', 43)] \<and>
   handleUpdate ascii_toLowerCase
     (fst (snd (sendPermissionRequest example_channel (example_permission_request ''r2'') (Json (accepted 43)))))
     (reply_update 43 (js ''deny'')) = [CallbackCalled 0 (js ''r2'') (js ''deny'')]"
proof -
  have h1: "req_args (example_permission_request ''r2'') \<noteq> ArgNoJson"
    by (simp add: example_permission_request_def)
  have h2: "tr_ok (accepted 43)" and h3: "tr_result (accepted 43) = Some 43"
    by (simp_all add: accepted_def)
  have h4: "43 \<notin> snd ` set (pendingMessageIds example_channel)"
    by (simp add: channel_eval)
  have h5: "req_id (example_permission_request ''r2'') \<noteq> [] \<and> js ''deny'' \<noteq> []"
    by (simp add: channel_eval)
  have p: "parseResponse ascii_toLowerCase (js ''deny'') = js ''deny''"
    by (simp add: parseResponse_def ascii_toLowerCase_def trim_def is_whitespace_def js_def)
  from sendPermissionRequest_registers_native_id [OF h1 h2 h3, of example_channel "js ''deny''" ascii_toLowerCase]
    h4 h5 p
  show ?thesis
    by (auto simp: notifyResponse_def channel_eval)
qed

text \<open>
  The claim as stated fails: for request \<open>r2\<close> and native message id 43 the value
  returned is \<open>r2\<close>, which is not the message id.  Looking the returned value up as
  a message id finds nothing; looking up 43 finds \<open>r2\<close>.
\<close>

theorem sendPermissionRequest_returns_request_id:
  "fst (sendPermissionRequest example_channel (example_permission_request ''r2'') (Json (accepted 43))) =
     Inr (js ''r2'') \<and>
   js ''r2'' \<noteq> toString 43 \<and>
   findRequestIdByMessageId
     (fst (snd (sendPermissionRequest example_channel (example_permission_request ''r2'') (Json (accepted 43)))))
     (js ''r2'') = None \<and>
   findRequestIdByMessageId
     (fst (snd (sendPermissionRequest example_channel (example_permission_request ''r2'') (Json (accepted 43)))))
     (toString 43) = Some (js ''r2'')"
  by (simp add: sendPermissionRequest_def formatPermissionMessage_def Let_def channel_eval accepted_def
      findRequestIdByMessageId_def toString_def digits.simps)

subsection \<open>\<open>handleUpdate\<close>\<close>

text \<open>
  Claim C3, as amended.  The list of effects is everything \<open>handleUpdate\<close> does to the
  outside.  When the update carries no reply target or callback origin, or the
  correlation table has no entry for it, the list is empty: no callback is called,
  nothing is posted and nothing is handed to any other component.  The update is
  dropped.
\<close>

theorem handleUpdate_drops_unmatched:
  assumes "case correlation_target update of
             None \<Rightarrow> True
           | Some m \<Rightarrow> findRequestIdByMessageId ch (toString m) = None"
  shows "handleUpdate toLowerCase ch update = []"
  using assms
  by (auto simp: handleUpdate_def handleCallbackQuery_def correlation_target_def truthy_def Let_def
      split: option.splits prod.splits)

theorem handleUpdate_drops_unmatched_witness:
  "correlation_target (reply_update 77 (js ''allow'')) = Some 77 \<and>
   findRequestIdByMessageId example_channel (toString 77) = None \<and>
   handleUpdate ascii_toLowerCase example_channel (reply_update 77 (js ''allow'')) = []"
proof -
  have t: "correlation_target (reply_update 77 (js ''allow'')) = Some 77"
    by (simp add: correlation_target_def reply_update_def)
  have f: "findRequestIdByMessageId example_channel (toString 77) = None"
    by (simp add: findRequestIdByMessageId_def channel_eval toString_def digits.simps)
  from t f have "case correlation_target (reply_update 77 (js ''allow'')) of
             None \<Rightarrow> True
           | Some m \<Rightarrow> findRequestIdByMessageId example_channel (toString m) = None"
    by simp
  from handleUpdate_drops_unmatched [OF this] t f show ?thesis by simp
qed

text \<open>
  The claim as stated fails: a plain text message, which has no reply target, leads to no
  call at all, so it is not forwarded to \<open>handleIncoming\<close>.
\<close>

theorem handleUpdate_forwards_nothing:
  "correlation_target (text_update (js ''hello'')) = None \<and>
   handleUpdate ascii_toLowerCase example_channel (text_update (js ''hello'')) = []"
  by (simp add: correlation_target_def text_update_def handleUpdate_def truthy_def)

subsection \<open>\<open>parseResponse\<close>\<close>

lemma trim_map:
  assumes "\<And>c. is_whitespace (f c) = is_whitespace c"
  shows "trim (map f s) = map f (trim s)"
proof -
  have c: "is_whitespace \<circ> f = is_whitespace" using assms by auto
  have d: "dropWhile is_whitespace (map f xs) = map f (dropWhile is_whitespace xs)" for xs
    by (simp add: dropWhile_map c)
  have "trim (map f s) = rev (dropWhile is_whitespace (rev (map f (dropWhile is_whitespace s))))"
    unfolding trim_def d ..
  also have "\<dots> = rev (dropWhile is_whitespace (map f (rev (dropWhile is_whitespace s))))"
    unfolding rev_map ..
  also have "\<dots> = rev (map f (dropWhile is_whitespace (rev (dropWhile is_whitespace s))))"
    unfolding d ..
  also have "\<dots> = map f (trim s)"
    unfolding rev_map trim_def ..
  finally show ?thesis .
qed

lemma trim_ascii_toLowerCase: "trim (ascii_toLowerCase s) = ascii_toLowerCase (trim s)"
  unfolding ascii_toLowerCase_def
  by (rule trim_map) (auto simp: is_whitespace_def)

lemmas parse_eval = parseResponse_def ascii_toLowerCase_def trim_def is_whitespace_def js_def Let_def

text \<open>
  Claim C4, as amended.  The input is compared after lower-casing and after trimming
  surrounding whitespace.  For every input whatsoever: when its lower-cased, trimmed
  form is one of allow, yes, y and the check mark the result is \<open>allow\<close>; when it is one
  of deny, no, n and the cross mark the result is \<open>deny\<close>; in every other case the result
  is the input with its surrounding whitespace trimmed and otherwise unchanged, in its
  original letter case.  For texts of ASCII characters and the two glyphs, where
  lower-casing is known, this is: in any letter case and with any surrounding
  whitespace the eight words give \<open>allow\<close> and \<open>deny\<close>, and all else comes back trimmed.
\<close>

theorem parseResponse_normalizes:
  assumes "lowers_ascii toLowerCase"
  shows "((\<forall>c \<in> set text'. c < 128 \<or> c = 9989 \<or> c = 10060) \<longrightarrow>
          parseResponse toLowerCase text' =
            (if ascii_toLowerCase (trim text') \<in> {js ''allow'', js ''yes'', js ''y'', [9989]}
             then js ''allow''
             else if ascii_toLowerCase (trim text') \<in> {js ''deny'', js ''no'', js ''n'', [10060]}
             then js ''deny''
             else trim text')) \<and>
         parseResponse toLowerCase other =
           (if trim (toLowerCase other) \<in> {js ''allow'', js ''yes'', js ''y'', [9989]}
            then js ''allow''
            else if trim (toLowerCase other) \<in> {js ''deny'', js ''no'', js ''n'', [10060]}
            then js ''deny''
            else trim other)"
proof -
  have "parseResponse toLowerCase text' =
            (if ascii_toLowerCase (trim text') \<in> {js ''allow'', js ''yes'', js ''y'', [9989]}
             then js ''allow''
             else if ascii_toLowerCase (trim text') \<in> {js ''deny'', js ''no'', js ''n'', [10060]}
             then js ''deny''
             else trim text')"
    if "\<forall>c \<in> set text'. c < 128 \<or> c = 9989 \<or> c = 10060"
  proof -
    from assms that have "toLowerCase text' = ascii_toLowerCase text'" by (simp add: lowers_ascii_def)
    then show ?thesis
      by (simp add: parseResponse_def Let_def trim_ascii_toLowerCase)
  qed
  moreover have "parseResponse toLowerCase other =
           (if trim (toLowerCase other) \<in> {js ''allow'', js ''yes'', js ''y'', [9989]}
            then js ''allow''
            else if trim (toLowerCase other) \<in> {js ''deny'', js ''no'', js ''n'', [10060]}
            then js ''deny''
            else trim other)"
    by (simp add: parseResponse_def Let_def)
  ultimately show ?thesis by blast
qed

theorem parseResponse_normalizes_witness:
  "parseResponse ascii_toLowerCase (js ''YES'') = js ''allow'' \<and>
   parseResponse ascii_toLowerCase (js ''Y'') = js ''allow'' \<and>
   parseResponse ascii_toLowerCase [9989] = js ''allow'' \<and>
   parseResponse ascii_toLowerCase (js '' No '') = js ''deny'' \<and>
   parseResponse ascii_toLowerCase [10060] = js ''deny'' \<and>
   parseResponse ascii_toLowerCase (js ''do it differently'') = js ''do it differently'' \<and>
   parseResponse ascii_toLowerCase (js '' Maybe Later '') = js ''Maybe Later'' \<and>
   parseResponse ascii_toLowerCase [32, 231, 97, 32, 118, 97, 32] = [231, 97, 32, 118, 97] \<and>
   parseResponse ascii_toLowerCase [20320, 22909] = [20320, 22909]"
proof -
  have a: "\<forall>c \<in> set (js ''YES''). c < 128 \<or> c = 9989 \<or> c = 10060"
    and b: "\<forall>c \<in> set (js ''Y''). c < 128 \<or> c = 9989 \<or> c = 10060"
    and c: "\<forall>c \<in> set [9989::nat]. c < 128 \<or> c = 9989 \<or> c = 10060"
    and d: "\<forall>c \<in> set (js '' No ''). c < 128 \<or> c = 9989 \<or> c = 10060"
    and e: "\<forall>c \<in> set [10060::nat]. c < 128 \<or> c = 9989 \<or> c = 10060"
    and f: "\<forall>c \<in> set (js ''do it differently''). c < 128 \<or> c = 9989 \<or> c = 10060"
    and g: "\<forall>c \<in> set (js '' Maybe Later ''). c < 128 \<or> c = 9989 \<or> c = 10060"
    by (simp_all add: js_def)
  note n = parseResponse_normalizes [OF lowers_ascii_ascii, THEN conjunct1, THEN mp]
  note o = parseResponse_normalizes [OF lowers_ascii_ascii, THEN conjunct2]
  have ascii: "parseResponse ascii_toLowerCase (js ''YES'') = js ''allow'' \<and>
   parseResponse ascii_toLowerCase (js ''Y'') = js ''allow'' \<and>
   parseResponse ascii_toLowerCase [9989] = js ''allow'' \<and>
   parseResponse ascii_toLowerCase (js '' No '') = js ''deny'' \<and>
   parseResponse ascii_toLowerCase [10060] = js ''deny'' \<and>
   parseResponse ascii_toLowerCase (js ''do it differently'') = js ''do it differently'' \<and>
   parseResponse ascii_toLowerCase (js '' Maybe Later '') = js ''Maybe Later''"
    using n [OF a] n [OF b] n [OF c] n [OF d] n [OF e] n [OF f] n [OF g]
    by (simp add: ascii_toLowerCase_def trim_def is_whitespace_def js_def)
  have other: "parseResponse ascii_toLowerCase [32, 231, 97, 32, 118, 97, 32] = [231, 97, 32, 118, 97] \<and>
   parseResponse ascii_toLowerCase [20320, 22909] = [20320, 22909]"
    using o [of "[32, 231, 97, 32, 118, 97, 32]"] o [of "[20320, 22909]"]
    by (simp add: ascii_toLowerCase_def trim_def is_whitespace_def js_def)
  from ascii other show ?thesis by simp
qed

text \<open>
  The claim as stated fails: \<open>" ok "\<close> is none of the eight words, and it comes back
  as \<open>"ok"\<close>, not unchanged.
\<close>

theorem parseResponse_trims_other_input:
  "ascii_toLowerCase (js '' ok '') \<notin> {js ''allow'', js ''yes'', js ''y'', [9989], js ''deny'', js ''no'', js ''n'', [10060]} \<and>
   parseResponse ascii_toLowerCase (js '' ok '') = js ''ok'' \<and>
   parseResponse ascii_toLowerCase (js '' ok '') \<noteq> js '' ok ''"
  by (simp add: parse_eval)

subsection \<open>\<open>updateMessage\<close>\<close>

text \<open>
  Claim C10.  For an id without an entry in the correlation table, \<open>updateMessage\<close>
  returns normally, posts nothing and leaves the channel as it was.
\<close>

theorem updateMessage_without_entry:
  assumes "map_of (pendingMessageIds ch) messageId = None"
  shows "updateMessage ch messageId content outcome' = (Inr (), ch, [])"
  using assms by (simp add: updateMessage_def)

theorem updateMessage_without_entry_witness:
  "map_of (pendingMessageIds example_channel) (js ''r9'') = None \<and>
   updateMessage example_channel (js ''r9'') (js ''done'') (Responded True) = (Inr (), example_channel, [])"
proof -
  have h: "map_of (pendingMessageIds example_channel) (js ''r9'') = None"
    by (simp add: channel_eval)
  from updateMessage_without_entry [OF h] h show ?thesis by simp
qed

text \<open>
  For an entry with a native message id other than 0, \<open>updateMessage\<close> returns normally
  whatever the outcome of the edit, posts the edit once and deletes the entry; no later
  lookup gives that id.
\<close>

lemma updateMessage_removes:
  assumes "map_of (pendingMessageIds ch) messageId = Some m" and "m \<noteq> 0"
  shows "updateMessage ch messageId content outcome' =
           (Inr (), ch\<lparr>pendingMessageIds := AList.delete messageId (pendingMessageIds ch)\<rparr>,
            [PostEditMessageText (chatId (config ch)) m content (parseMode (config ch))])"
    and "findRequestIdByMessageId (fst (snd (updateMessage ch messageId content outcome'))) n \<noteq> Some messageId"
proof -
  show u: "updateMessage ch messageId content outcome' =
           (Inr (), ch\<lparr>pendingMessageIds := AList.delete messageId (pendingMessageIds ch)\<rparr>,
            [PostEditMessageText (chatId (config ch)) m content (parseMode (config ch))])"
    using assms by (cases outcome') (simp_all add: updateMessage_def Let_def)
  show "findRequestIdByMessageId (fst (snd (updateMessage ch messageId content outcome'))) n \<noteq> Some messageId"
  proof
    assume "findRequestIdByMessageId (fst (snd (updateMessage ch messageId content outcome'))) n = Some messageId"
    from find_some_key [OF this] u AList.delete_notin_dom [of messageId "pendingMessageIds ch"]
    show False by simp
  qed
qed

text \<open>
  Claim C7 at the native message id 0: the entry counts as missing, so nothing is posted
  and the entry stays in the table, where a later reply to message 0 still finds it.
\<close>

theorem updateMessage_keeps_entry_with_id_zero:
  "updateMessage (example_channel\<lparr>pendingMessageIds := [(js ''r1'', 0)]\<rparr>) (js ''r1'') (js ''done'') (Responded True) =
     (Inr (), example_channel\<lparr>pendingMessageIds := [(js ''r1'', 0)]\<rparr>, []) \<and>
   findRequestIdByMessageId (example_channel\<lparr>pendingMessageIds := [(js ''r1'', 0)]\<rparr>) (toString 0) = Some (js ''r1'')"
  by (simp add: updateMessage_def findRequestIdByMessageId_def)

section \<open>Properties of the permission handler\<close>

lemma updateMessage_returns: "fst (updateMessage ch messageId content outcome') = Inr ()"
  by (cases outcome') (simp_all add: updateMessage_def Let_def split: option.splits)

text \<open>
  Claim C6.  When the awaitable of the store fails with an error, whichever it is, the
  handler resumes, makes exactly one \<open>updateMessage\<close> call, for the request's id and with
  the text that ends in \<open>No response received.\<close>, and then throws that same error: it
  returns no decision.  Whatever the outcome of the edit, if the correlation table holds
  a native message id other than 0 for the request, the edit of that message is posted
  and the entry is gone afterwards.
\<close>

theorem handlePermissionRequest_rethrows:
  "(\<exists>r. handlePermissionRequest_resume ch request (Rejected error) first second = Some r \<and>
        hr_result r = Inl error \<and>
        hr_calls r = [(req_id request, timeout_notice (req_tool request))] \<and>
        hr_channel r = fst (snd (updateMessage ch (req_id request) (timeout_notice (req_tool request)) first)) \<and>
        hr_posts r = snd (snd (updateMessage ch (req_id request) (timeout_notice (req_tool request)) first)) \<and>
        (\<forall>m. map_of (pendingMessageIds ch) (req_id request) = Some m \<and> m \<noteq> 0 \<longrightarrow>
           hr_posts r = [PostEditMessageText (chatId (config ch)) m (timeout_notice (req_tool request))
                          (parseMode (config ch))] \<and>
           map_of (pendingMessageIds (hr_channel r)) (req_id request) = None)) \<and>
   (\<exists>before. timeout_notice (req_tool request) = before @ js ''No response received.'')"
proof -
  let ?u = "updateMessage ch (req_id request) (timeout_notice (req_tool request)) first"
  obtain ch' posts where u: "?u = (Inr (), ch', posts)"
    using updateMessage_returns [of ch "req_id request" "timeout_notice (req_tool request)" first]
    by (cases ?u) auto
  let ?r = "\<lparr>hr_result = Inl error, hr_channel = ch',
            hr_calls = [(req_id request, timeout_notice (req_tool request))], hr_posts = posts\<rparr>"
  have r: "handlePermissionRequest_resume ch request (Rejected error) first second = Some ?r"
    using u by (simp add: handlePermissionRequest_resume_def catch_block_def)
  have e: "hr_posts ?r = [PostEditMessageText (chatId (config ch)) m (timeout_notice (req_tool request))
                          (parseMode (config ch))] \<and>
           map_of (pendingMessageIds (hr_channel ?r)) (req_id request) = None"
    if "map_of (pendingMessageIds ch) (req_id request) = Some m" "m \<noteq> 0" for m
    using updateMessage_removes(1) [OF that, of "timeout_notice (req_tool request)" first] u
    by (auto simp: AList.delete_conv')
  have "\<exists>before. timeout_notice (req_tool request) = before @ js ''No response received.''"
    unfolding timeout_notice_def by (metis append.assoc)
  with r u e show ?thesis by auto
qed

theorem handlePermissionRequest_rethrows_witness:
  "promises (fire_timer 0 example_store) ! 0 = Rejected (timeout_error (js ''r1'')) \<and>
   map_option hr_result
     (handlePermissionRequest_resume example_channel (example_permission_request ''r1'')
        (promises (fire_timer 0 example_store) ! 0) (Threw (JsError (js ''network''))) (Responded True)) =
     Some (Inl (timeout_error (js ''r1''))) \<and>
   map_option hr_posts
     (handlePermissionRequest_resume example_channel (example_permission_request ''r1'')
        (promises (fire_timer 0 example_store) ! 0) (Threw (JsError (js ''network''))) (Responded True)) =
     Some [PostEditMessageText (js ''1001'') 42 (timeout_notice (js ''bash'')) Markdown] \<and>
   map_option (\<lambda>r. pendingMessageIds (hr_channel r))
     (handlePermissionRequest_resume example_channel (example_permission_request ''r1'')
        (promises (fire_timer 0 example_store) ! 0) (Threw (JsError (js ''network''))) (Responded True)) =
     Some []"
proof -
  have p: "promises (fire_timer 0 example_store) ! 0 = Rejected (timeout_error (js ''r1''))"
    by (simp add: store_eval)
  have m: "map_of (pendingMessageIds example_channel) (req_id (example_permission_request ''r1'')) = Some 42"
    by (simp add: channel_eval)
  have c: "chatId (config example_channel) = js ''1001''" "parseMode (config example_channel) = Markdown"
    "req_tool (example_permission_request ''r1'') = js ''bash''"
    "pendingMessageIds example_channel = [(js ''r1'', 42)]"
    "req_id (example_permission_request ''r1'') = js ''r1''"
    by (simp_all add: channel_eval)
  from handlePermissionRequest_rethrows [of example_channel "example_permission_request ''r1''"
      "timeout_error (js ''r1'')" "Threw (JsError (js ''network''))" "Responded True"]
  obtain r where r: "handlePermissionRequest_resume example_channel (example_permission_request ''r1'')
        (Rejected (timeout_error (js ''r1''))) (Threw (JsError (js ''network''))) (Responded True) = Some r"
    and "hr_result r = Inl (timeout_error (js ''r1''))"
    and "hr_channel r = fst (snd (updateMessage example_channel (req_id (example_permission_request ''r1''))
           (timeout_notice (req_tool (example_permission_request ''r1''))) (Threw (JsError (js ''network'')))))"
    and "hr_posts r = [PostEditMessageText (chatId (config example_channel)) 42
           (timeout_notice (req_tool (example_permission_request ''r1''))) (parseMode (config example_channel))]"
    using m by auto
  moreover have "pendingMessageIds (fst (snd (updateMessage example_channel (req_id (example_permission_request ''r1''))
           (timeout_notice (req_tool (example_permission_request ''r1''))) (Threw (JsError (js ''network'')))))) = []"
    using updateMessage_removes(1) [OF m, of "timeout_notice (req_tool (example_permission_request ''r1''))"
        "Threw (JsError (js ''network''))"]
    by (simp add: c)
  ultimately show ?thesis using p c by simp
qed

section \<open>Properties of the remote controller\<close>

subsection \<open>Trimming and splitting\<close>

lemma trim_no_trailing: "trim s = [] \<or> \<not> is_whitespace (last (trim s))"
proof (cases "dropWhile is_whitespace (rev (dropWhile is_whitespace s))")
  case Nil
  then show ?thesis by (simp add: trim_def)
next
  case (Cons a as)
  then have "\<not> is_whitespace a" using hd_dropWhile [of is_whitespace "rev (dropWhile is_whitespace s)"] by auto
  with Cons show ?thesis by (simp add: trim_def)
qed

lemma split_ws_head: "\<exists>rest. split_ws piece s = (piece @ takeWhile (\<lambda>c. \<not> is_whitespace c) s) # rest"
  by (induction piece s rule: split_ws.induct) auto

lemma split_ws_tail_nonempty:
  assumes "s = [] \<or> \<not> is_whitespace (last s)"
  shows "[] \<notin> set (tl (split_ws piece s))"
  using assms
proof (induction piece s rule: split_ws.induct)
  case (1 piece)
  then show ?case by simp
next
  case (2 piece c cs)
  show ?case
  proof (cases "is_whitespace c")
    case False
    with "2.prems" have "cs = [] \<or> \<not> is_whitespace (last cs)" by (auto split: if_splits)
    with "2.IH"(2) [OF False] False show ?thesis by simp
  next
    case True
    let ?cs = "dropWhile is_whitespace cs"
    from True "2.prems" have ne: "cs \<noteq> []" and l: "\<not> is_whitespace (last cs)" by (auto split: if_splits)
    then have "last cs \<in> set cs" by simp
    with l have cs': "?cs \<noteq> []" by (auto simp: dropWhile_eq_Nil_conv)
    then have h: "\<not> is_whitespace (hd ?cs)" by (rule hd_dropWhile)
    have "last ?cs = last cs" using cs' by (metis last_appendR takeWhile_dropWhile_id)
    with l have p: "?cs = [] \<or> \<not> is_whitespace (last ?cs)" by simp
    from "2.IH"(1) [OF True p] have t: "[] \<notin> set (tl (split_ws [] ?cs))" .
    from split_ws_head [of "[]" ?cs] obtain rest where
      r: "split_ws [] ?cs = takeWhile (\<lambda>c. \<not> is_whitespace c) ?cs # rest" by auto
    from cs' h have "takeWhile (\<lambda>c. \<not> is_whitespace c) ?cs \<noteq> []"
      by (cases ?cs) auto
    with r t have "[] \<notin> set (split_ws [] ?cs)" by auto
    with True show ?thesis by simp
  qed
qed

lemma split_args_nonempty:
  assumes "split_whitespace (trim raw) = command # args"
  shows "[] \<notin> set args"
  using split_ws_tail_nonempty [OF trim_no_trailing, of "[]" raw] assms
  by (simp add: split_whitespace_def)

lemma startsWith_nonempty: "startsWith s p \<Longrightarrow> p \<noteq> [] \<Longrightarrow> s \<noteq> []"
  by (auto simp: startsWith_def)

lemma js_neq:
  "js ''use'' \<noteq> js ''help''" "js ''use'' \<noteq> js ''status''" "js ''use'' \<noteq> js ''list''"
  by (simp_all add: js_def)

lemmas remote_eval = example_controller_def example_sessions_def example_env_def js_def trim_def
  is_whitespace_def split_whitespace_def startsWith_def

subsection \<open>\<open>/use\<close>\<close>

lemma setActiveSession_cases:
  assumes "env_list env = Inr data" and "sessionIdPrefix \<noteq> []"
  shows "setActiveSession env rc sessionIdPrefix =
     (let matches = filter (\<lambda>session. startsWith (sess_id session) sessionIdPrefix)
                      (case data of None \<Rightarrow> [] | Some ss \<Rightarrow> ss)
      in if matches = []
         then (env_send env, rc, [SessionList (rc_directory rc), ChannelSend not_found_text Markdown])
         else if length matches > 1
         then (env_send env, rc, [SessionList (rc_directory rc), ChannelSend ambiguous_text Markdown])
         else (env_send env, select_session rc (sess_id (hd matches)),
               [SessionList (rc_directory rc), ChannelSend (selected_text (sess_id (hd matches))) Markdown]))"
proof -
  define sessions where "sessions = (case data of None \<Rightarrow> [] | Some ss \<Rightarrow> ss)"
  let ?ms = "filter (\<lambda>session. startsWith (sess_id session) sessionIdPrefix) sessions"
  have one: "sess_id (?ms ! 0) \<noteq> [] \<and> ?ms ! 0 = hd ?ms" if "?ms \<noteq> []"
  proof -
    from that have "hd ?ms \<in> set ?ms" by (rule hd_in_set)
    then have "startsWith (sess_id (hd ?ms)) sessionIdPrefix" by simp
    with that have "startsWith (sess_id (?ms ! 0)) sessionIdPrefix" by (simp add: hd_conv_nth)
    from startsWith_nonempty [OF this assms(2)] have "sess_id (?ms ! 0) \<noteq> []" .
    with that show ?thesis by (simp add: hd_conv_nth)
  qed
  show ?thesis
    using assms(1) one unfolding sessions_def [symmetric]
    by (auto simp: setActiveSession_def Let_def after_call_def channel_send_def not_found_text_def
        ambiguous_text_def selected_text_def select_session_def setActiveSessionId_def save_def truthy_def
        sessions_def [symmetric])
qed

text \<open>
  Claim C8.  Let the controller be enabled, let the trimmed text be \<open>/\<close> followed by a
  command line whose first piece is \<open>use\<close> and whose second piece is the prefix, and let
  the host answer the session listing.  With no session id starting with the prefix the
  controller sends the not-found text and is unchanged; with more than one it sends the
  ambiguity text and is unchanged; with exactly one it makes that session the active
  one, in memory and in the state file, and sends the confirmation.
\<close>

theorem use_command:
  assumes "rc_enabled rc"
    and "trim (im_text message) = js ''/'' @ raw"
    and "split_whitespace (trim raw) = js ''use'' # sessionIdPrefix # others"
    and "env_list env = Inr data"
  shows "handleIncoming env rc message =
     (let matches = filter (\<lambda>session. startsWith (sess_id session) sessionIdPrefix)
                      (case data of None \<Rightarrow> [] | Some ss \<Rightarrow> ss)
      in if matches = []
         then (env_send env, rc, [SessionList (rc_directory rc), ChannelSend not_found_text Markdown])
         else if length matches > 1
         then (env_send env, rc, [SessionList (rc_directory rc), ChannelSend ambiguous_text Markdown])
         else (env_send env, select_session rc (sess_id (hd matches)),
               [SessionList (rc_directory rc), ChannelSend (selected_text (sess_id (hd matches))) Markdown]))"
proof -
  from split_args_nonempty [OF assms(3)] have p: "sessionIdPrefix \<noteq> []" by auto
  have "handleIncoming env rc message = handleCommand env rc raw"
    using assms(1,2) by (simp add: handleIncoming_def Let_def startsWith_def js_def)
  also have "\<dots> = setActiveSession env rc sessionIdPrefix"
    using assms(3) by (simp add: handleCommand_def js_neq)
  finally show ?thesis
    using setActiveSession_cases [OF assms(4) p] by simp
qed

theorem use_command_witness:
  "handleIncoming example_env example_controller \<lparr>im_text = js ''/use ses_abc''\<rparr> =
     (None, select_session example_controller (js ''ses_abc1''),
      [SessionList (js ''/work''), ChannelSend (selected_text (js ''ses_abc1'')) Markdown]) \<and>
   getActiveSessionId (rc_stateStore (select_session example_controller (js ''ses_abc1''))) = Some (js ''ses_abc1'') \<and>
   map_option cs_activeSessionId (ss_file (rc_stateStore (select_session example_controller (js ''ses_abc1'')))) =
     Some (Some (js ''ses_abc1'')) \<and>
   handleIncoming example_env example_controller \<lparr>im_text = js ''/use ses_ab''\<rparr> =
     (None, example_controller, [SessionList (js ''/work''), ChannelSend ambiguous_text Markdown]) \<and>
   handleIncoming example_env example_controller \<lparr>im_text = js ''/use nope''\<rparr> =
     (None, example_controller, [SessionList (js ''/work''), ChannelSend not_found_text Markdown])"
proof -
  have e: "rc_enabled example_controller" by (simp add: example_controller_def)
  have l: "env_list example_env = Inr (Some example_sessions)" by (simp add: example_env_def)
  have t1: "trim (im_text \<lparr>im_text = js ''/use ses_abc''\<rparr>) = js ''/'' @ js ''use ses_abc''"
    and t2: "trim (im_text \<lparr>im_text = js ''/use ses_ab''\<rparr>) = js ''/'' @ js ''use ses_ab''"
    and t3: "trim (im_text \<lparr>im_text = js ''/use nope''\<rparr>) = js ''/'' @ js ''use nope''"
    by (simp_all add: remote_eval)
  have s1: "split_whitespace (trim (js ''use ses_abc'')) = js ''use'' # js ''ses_abc'' # []"
    and s2: "split_whitespace (trim (js ''use ses_ab'')) = js ''use'' # js ''ses_ab'' # []"
    and s3: "split_whitespace (trim (js ''use nope'')) = js ''use'' # js ''nope'' # []"
    by (simp_all add: remote_eval)
  note u1 = use_command [OF e t1 s1 l]
  note u2 = use_command [OF e t2 s2 l]
  note u3 = use_command [OF e t3 s3 l]
  have a: "handleIncoming example_env example_controller \<lparr>im_text = js ''/use ses_abc''\<rparr> =
     (None, select_session example_controller (js ''ses_abc1''),
      [SessionList (js ''/work''), ChannelSend (selected_text (js ''ses_abc1'')) Markdown])"
    unfolding u1 by (simp add: remote_eval)
  have b: "handleIncoming example_env example_controller \<lparr>im_text = js ''/use ses_ab''\<rparr> =
     (None, example_controller, [SessionList (js ''/work''), ChannelSend ambiguous_text Markdown])"
    unfolding u2 by (simp add: remote_eval)
  have c: "handleIncoming example_env example_controller \<lparr>im_text = js ''/use nope''\<rparr> =
     (None, example_controller, [SessionList (js ''/work''), ChannelSend not_found_text Markdown])"
    unfolding u3 by (simp add: remote_eval)
  from a b c show ?thesis
    by (simp add: select_session_def getActiveSessionId_def)
qed

subsection \<open>Free text\<close>

text \<open>
  Claim C9.  Let the controller be enabled and the trimmed text be non-empty and not a
  command.  With no active session (none stored, or the empty string) the controller
  sends the text that tells the user to pick a session with \<open>/list\<close> and \<open>/use\<close>; that
  send is its only call, so the host's prompt endpoint is not called and the message is
  not dropped silently.
\<close>

theorem free_text_without_session:
  assumes "rc_enabled rc"
    and "trim (im_text message) \<noteq> []"
    and "\<not> startsWith (trim (im_text message)) (js ''/'')"
    and "\<not> truthy (getActiveSessionId (rc_stateStore rc))"
  shows "handleIncoming env rc message = (env_send env, rc, [ChannelSend no_active_session_text Markdown]) \<and>
         SessionPrompt sid dir sent \<notin> set (snd (snd (handleIncoming env rc message)))"
  using assms by (simp add: handleIncoming_def Let_def channel_send_def)

theorem free_text_without_session_witness:
  "handleIncoming example_env example_controller \<lparr>im_text = js '' fix the tests ''\<rparr> =
     (None, example_controller, [ChannelSend no_active_session_text Markdown])"
proof -
  have e: "rc_enabled example_controller" by (simp add: example_controller_def)
  have t: "trim (im_text \<lparr>im_text = js '' fix the tests ''\<rparr>) \<noteq> []"
    by (simp add: remote_eval)
  have s: "\<not> startsWith (trim (im_text \<lparr>im_text = js '' fix the tests ''\<rparr>)) (js ''/'')"
    by (simp add: remote_eval)
  have a: "\<not> truthy (getActiveSessionId (rc_stateStore example_controller))"
    by (simp add: truthy_def getActiveSessionId_def example_controller_def)
  from free_text_without_session [OF e t s a, of example_env] show ?thesis
    by (simp add: example_env_def)
qed

end
